theory Spec2Isabelle
  imports Complex_Main
begin

section \<open>Leaflet.PolylineOffset: the offset-and-join geometry of leaflet.polylineoffset.js\<close>

text \<open>
  JavaScript numbers are modelled as real numbers: the arithmetic of the source is read
  as exact arithmetic, without rounding, signed zeros, NaN or infinities. Everything
  below is a statement about that reading of the code.
\<close>

subsection \<open>Data\<close>

text \<open>A point \<open>{x, y}\<close> as a value. The fields are called \<open>px\<close> and \<open>py\<close>.\<close>

record point =
  px :: real
  py :: real

text \<open>
  A point object. \<open>cutInnerAngles\<close> compares two end points with \<open>==\<close>, which on
  JavaScript objects is identity and not equality of coordinates. Point objects are never
  mutated by the source, so an object is modelled as its allocation number \<open>oid\<close>
  together with its coordinates \<open>pos\<close>; a function that creates objects takes the next
  free allocation number and returns the one after its last allocation.
\<close>

record pointObj =
  oid :: nat
  pos :: point

definition sameObj :: "pointObj \<Rightarrow> pointObj \<Rightarrow> bool" where
  "sameObj a b = (oid a = oid b)"

text \<open>A segment is the two-element array \<open>[start, end]\<close> of point objects.\<close>

type_synonym segment = "pointObj \<times> pointObj"

text \<open>The object pushed by \<open>offsetPointLine\<close>.\<close>

record offsetSegment =
  offsetAngle :: real
  original :: "point \<times> point"
  offset :: segment

datatype error = TypeError | NullPoint

subsection \<open>Library functions of the host language\<close>

text \<open>
  \<open>Math.atan2(y, x)\<close> on real arguments, with values in \<open>(-\<pi>, \<pi>]\<close>.
\<close>

definition atan2 :: "real \<Rightarrow> real \<Rightarrow> real" where
  "atan2 yv xv =
     (if 0 < xv then arctan (yv / xv)
      else if xv < 0 then (if 0 \<le> yv then arctan (yv / xv) + pi else arctan (yv / xv) - pi)
      else if 0 < yv then pi / 2
      else if yv < 0 then - (pi / 2)
      else 0)"

text \<open>\<open>Array.prototype.splice(start, count)\<close> without inserted elements.\<close>

definition spliceOut :: "'a list \<Rightarrow> nat \<Rightarrow> nat \<Rightarrow> 'a list" where
  "spliceOut xs start cnt = take start xs @ drop (start + cnt) xs"

subsection \<open>Geometric primitives\<close>

text \<open>
  \<open>forEachPair(list, callback)\<close>: the callback changes variables of the enclosing
  function, which the model passes along as a state.
\<close>

fun forEachPair :: "'a list \<Rightarrow> ('a \<Rightarrow> 'a \<Rightarrow> 's \<Rightarrow> 's) \<Rightarrow> 's \<Rightarrow> 's" where
  "forEachPair [] callback s = s"
| "forEachPair [a] callback s = s"
| "forEachPair (a # b # rest) callback s = forEachPair (b # rest) callback (callback a b s)"

text \<open>
  \<open>lineEquation\<close> returns \<open>{x: c}\<close> for a vertical line, \<open>{a: a, b: b}\<close> for
  \<open>y = a.x + b\<close>, and \<open>null\<close> for two equal points.
\<close>

datatype line = Vertical real | Slope real real

definition lineEquation :: "point \<Rightarrow> point \<Rightarrow> line option" where
  "lineEquation pt1 pt2 =
     (if px pt1 = px pt2 then (if py pt1 = py pt2 then None else Some (Vertical (px pt1)))
      else let a = (py pt2 - py pt1) / (px pt2 - px pt1)
           in Some (Slope a (py pt1 - a * px pt1)))"

definition intersection :: "point \<Rightarrow> point \<Rightarrow> point \<Rightarrow> point \<Rightarrow> point option" where
  "intersection l1a l1b l2a l2b =
     (case (lineEquation l1a l1b, lineEquation l2a l2b) of
        (None, _) \<Rightarrow> None
      | (_, None) \<Rightarrow> None
      | (Some (Vertical x1), Some (Vertical x2)) \<Rightarrow> None
      | (Some (Vertical x1), Some (Slope a2 b2)) \<Rightarrow> Some \<lparr>px = x1, py = a2 * x1 + b2\<rparr>
      | (Some (Slope a1 b1), Some (Vertical x2)) \<Rightarrow> Some \<lparr>px = x2, py = a1 * x2 + b1\<rparr>
      | (Some (Slope a1 b1), Some (Slope a2 b2)) \<Rightarrow>
          (if a1 = a2 then None
           else let xv = (b2 - b1) / (a1 - a2) in Some \<lparr>px = xv, py = a1 * xv + b1\<rparr>))"

definition signedArea :: "point \<Rightarrow> point \<Rightarrow> point \<Rightarrow> real" where
  "signedArea p1 p2 p3 =
     (px p2 - px p1) * (py p3 - py p1) - (px p3 - px p1) * (py p2 - py p1)"

definition intersects :: "point \<Rightarrow> point \<Rightarrow> point \<Rightarrow> point \<Rightarrow> bool" where
  "intersects l1a l1b l2a l2b =
     (signedArea l1a l1b l2a * signedArea l1a l1b l2b < 0 \<and>
      signedArea l2a l2b l1a * signedArea l2a l2b l1b < 0)"

definition translatePoint :: "point \<Rightarrow> real \<Rightarrow> real \<Rightarrow> point" where
  "translatePoint pt dst heading =
     \<lparr>px = px pt + dst * cos heading, py = py pt + dst * sin heading\<rparr>"

subsection \<open>Segment offsetter\<close>

text \<open>
  \<open>offsetPointLine(points, distance)\<close>. The callback pushes onto \<open>offsetSegments\<close>
  and creates two point objects per segment; the state of the iteration is the list built
  so far and the next free allocation number.
\<close>

definition offsetPointLine ::
  "point list \<Rightarrow> real \<Rightarrow> nat \<Rightarrow> offsetSegment list \<times> nat" where
  "offsetPointLine points distance n =
     forEachPair points
       (\<lambda>a b (offsetSegments, k).
          if px a = px b \<and> py a = py b then (offsetSegments, k)
          else let segmentAngle = atan2 (py a - py b) (px a - px b);
                   offsetAngle = segmentAngle - pi / 2
               in (offsetSegments @
                     [\<lparr>offsetAngle = offsetAngle,
                       original = (a, b),
                       offset = (\<lparr>oid = k, pos = translatePoint a distance offsetAngle\<rparr>,
                                 \<lparr>oid = k + 1, pos = translatePoint b distance offsetAngle\<rparr>)\<rparr>],
                   k + 2))
       ([], n)"

subsection \<open>Join resolver\<close>

definition segmentAsVector :: "segment \<Rightarrow> point" where
  "segmentAsVector s =
     \<lparr>px = px (pos (snd s)) - px (pos (fst s)), py = py (pos (snd s)) - py (pos (fst s))\<rparr>"

definition getSignedAngle :: "segment \<Rightarrow> segment \<Rightarrow> real" where
  "getSignedAngle s1 s2 =
     (let a = segmentAsVector s1; b = segmentAsVector s2
      in atan2 (px a * py b - py a * px b) (px a * px b + py a * py b))"

text \<open>
  The sampling loop of \<open>circularArc\<close>:
  \<open>for (alpha = startAngle + step; alpha < endAngle; alpha += step)\<close>, called with the
  first value of \<open>alpha\<close>. Each sample is a new point object.
\<close>

function arcLoop :: "point \<Rightarrow> real \<Rightarrow> real \<Rightarrow> real \<Rightarrow> nat \<Rightarrow> pointObj list" where
  "arcLoop center distance alpha endAngle k =
     (if alpha < endAngle
      then \<lparr>oid = k, pos = translatePoint center distance alpha\<rparr>
             # arcLoop center distance (alpha + pi / 8) endAngle (k + 1)
      else [])"
  by pat_completeness auto

text \<open>The loop ends: the number of steps of \<open>\<pi>/8\<close> left below \<open>endAngle\<close> decreases.\<close>

termination arcLoop
proof (relation "measure (\<lambda>(c, d, alpha, e, k). nat \<lceil>(e - alpha) / (pi / 8)\<rceil>)")
  show "wf (measure (\<lambda>(c :: point, d :: real, alpha :: real, e :: real, k :: nat).
                       nat \<lceil>(e - alpha) / (pi / 8)\<rceil>))"
    by simp
next
  fix center :: point and distance alpha endAngle :: real and k :: nat
  assume less: "alpha < endAngle"
  have eq: "(endAngle - (alpha + pi / 8)) / (pi / 8) = (endAngle - alpha) / (pi / 8) - 1"
    by (simp add: field_simps)
  have "0 < (endAngle - alpha) / (pi / 8)"
    using less by simp
  then have "0 < \<lceil>(endAngle - alpha) / (pi / 8)\<rceil>"
    by simp
  then have "nat \<lceil>(endAngle - (alpha + pi / 8)) / (pi / 8)\<rceil>
               < nat \<lceil>(endAngle - alpha) / (pi / 8)\<rceil>"
    unfolding eq by simp
  then show "((center, distance, alpha + pi / 8, endAngle, k + 1),
              (center, distance, alpha, endAngle, k))
               \<in> measure (\<lambda>(c, d, alpha, e, k). nat \<lceil>(e - alpha) / (pi / 8)\<rceil>)"
    by (simp only: in_measure split_conv)
qed

declare arcLoop.simps [simp del]

text \<open>The segments \<open>[p1, p2]\<close> pushed for each pair of consecutive points.\<close>

definition pairSegments :: "pointObj list \<Rightarrow> segment list" where
  "pairSegments points = forEachPair points (\<lambda>p1 p2 offsetSegments. offsetSegments @ [(p1, p2)]) []"

definition circularArc ::
  "offsetSegment \<Rightarrow> offsetSegment \<Rightarrow> real \<Rightarrow> nat \<Rightarrow> segment list \<times> nat" where
  "circularArc s1 s2 distance n =
     (if offsetAngle s1 = offsetAngle s2 then ([], n)
      else let signedAngle = getSignedAngle (offset s1) (offset s2) in
        if signedAngle * distance > 0 then ([], n)
        else let center = snd (original s1);
                 rightOffset = (distance > 0);
                 startAngle = (if rightOffset then offsetAngle s2 else offsetAngle s1);
                 endAngle0 = (if rightOffset then offsetAngle s1 else offsetAngle s2);
                 endAngle = (if endAngle0 < startAngle then endAngle0 + pi * 2 else endAngle0);
                 step = pi / 8;
                 samples = arcLoop center distance (startAngle + step) endAngle n;
                 points = [if rightOffset then fst (offset s2) else snd (offset s1)]
                          @ samples
                          @ [if rightOffset then snd (offset s1) else fst (offset s2)];
                 points' = (if rightOffset then rev points else points)
             in (pairSegments points', n + length samples))"

text \<open>
  \<open>joinOuterAngles\<close> filters the result of \<open>circularArc\<close> by truthiness; every
  element is an array, hence truthy, and the filter keeps them all.
\<close>

definition joinOuterAngles ::
  "offsetSegment \<Rightarrow> offsetSegment \<Rightarrow> real \<Rightarrow> nat \<Rightarrow> segment list \<times> nat" where
  "joinOuterAngles s1 s2 offs n =
     (let (arc, n') = circularArc s1 s2 offs n in (filter (\<lambda>x. True) arc, n'))"

subsection \<open>Seam cutter\<close>

text \<open>
  The state of the outer loop of \<open>cutInnerAngles\<close>: the cursor \<open>i\<close>, the array
  \<open>segments\<close> and the next free allocation number. The segment arrays of the list are
  taken to be pairwise distinct objects, as \<open>joinLineSegments\<close> builds them, so that
  writing one end point of a segment changes that segment only. The allocation number is
  meant to be larger than that of every point object in the list.
\<close>

record cutState =
  cur :: nat
  segs :: "segment list"
  fresh :: nat

definition intersectsSeg :: "segment \<Rightarrow> segment \<Rightarrow> bool" where
  "intersectsSeg s t = intersects (pos (fst s)) (pos (snd s)) (pos (fst t)) (pos (snd t))"

definition intersectionSeg :: "segment \<Rightarrow> segment \<Rightarrow> point option" where
  "intersectionSeg s t = intersection (pos (fst s)) (pos (snd s)) (pos (fst t)) (pos (snd t))"

text \<open>
  The body of the inner loop at \<open>j\<close> when the two segments intersect: both end points
  are set to the new point object \<open>p\<close> (an implicit global of the source), the segments
  \<open>j+1 .. i\<close> are spliced out and the cursor moves to \<open>j + 1\<close>. The source would store
  \<open>null\<close> if \<open>intersection\<close> found no point; the model stops with \<open>NullPoint\<close>
  there. Lemma \<open>intersects_intersection\<close> below shows that this never happens: two
  segments that pass the test \<open>intersects\<close> have an intersection point.
\<close>

definition cutAt :: "nat \<Rightarrow> cutState \<Rightarrow> error + cutState" where
  "cutAt j st =
     (let i = cur st; segments = segs st in
      case intersectionSeg (segments ! j) (segments ! (i + 1)) of
        None \<Rightarrow> Inl NullPoint
      | Some pv \<Rightarrow>
          let p = \<lparr>oid = fresh st, pos = pv\<rparr>;
              segments1 = segments[j := (fst (segments ! j), p)];
              segments2 = segments1[i + 1 := (p, snd (segments1 ! (i + 1)))];
              segments3 = (if j < i then spliceOut segments2 (j + 1) (i - j) else segments2)
          in Inr \<lparr>cur = j + 1, segs = segments3, fresh = fresh st + 1\<rparr>)"

text \<open>The branch \<open>j == 0\<close> of the inner loop: \<open>segments.splice(i + 1, 1); ++i\<close>.\<close>

definition dropNext :: "cutState \<Rightarrow> cutState" where
  "dropNext st = st\<lparr>cur := cur st + 1, segs := spliceOut (segs st) (cur st + 1) 1\<rparr>"

text \<open>The inner loop \<open>while (true) { ... --j }\<close>, started at \<open>j\<close>.\<close>

fun searchBack :: "nat \<Rightarrow> cutState \<Rightarrow> error + cutState" where
  "searchBack 0 st =
     (if intersectsSeg (segs st ! 0) (segs st ! (cur st + 1)) then cutAt 0 st
      else Inr (dropNext st))"
| "searchBack (Suc j) st =
     (if intersectsSeg (segs st ! Suc j) (segs st ! (cur st + 1)) then cutAt (Suc j) st
      else searchBack j st)"

text \<open>One pass through the body of the outer loop, entered with \<open>i + 1 < segments.length\<close>.\<close>

definition cutStep :: "cutState \<Rightarrow> error + cutState" where
  "cutStep st =
     (if sameObj (snd (segs st ! cur st)) (fst (segs st ! (cur st + 1)))
      then Inr (st\<lparr>cur := cur st + 1\<rparr>)
      else searchBack (cur st) st)"

text \<open>The outer loop. \<open>None\<close> stands for a loop that never ends.\<close>

partial_function (option) cutLoop :: "cutState \<Rightarrow> (error + cutState) option" where
  "cutLoop st =
     (if cur st + 1 \<ge> length (segs st) then Some (Inr st)
      else case cutStep st of
             Inl e \<Rightarrow> Some (Inl e)
           | Inr st' \<Rightarrow> cutLoop st')"

text \<open>
  \<open>cutInnerAngles(segments)\<close>. Reading \<open>segments[0][0]\<close> of an empty array throws a
  TypeError.
\<close>

definition collectPoints :: "segment list \<Rightarrow> error + pointObj list" where
  "collectPoints segments =
     (case segments of
        [] \<Rightarrow> Inl TypeError
      | s0 # _ \<Rightarrow> Inr (fst s0 # map snd segments))"

definition cutInnerAngles :: "segment list \<Rightarrow> nat \<Rightarrow> (error + pointObj list) option" where
  "cutInnerAngles segments n =
     (case cutLoop \<lparr>cur = 0, segs = segments, fresh = n\<rparr> of
        None \<Rightarrow> None
      | Some (Inl e) \<Rightarrow> Some (Inl e)
      | Some (Inr st) \<Rightarrow> Some (collectPoints (segs st)))"

subsection \<open>The pipeline\<close>

text \<open>
  \<open>joinLineSegments(segments, offset)\<close>: \<open>first && last\<close> is false exactly for the
  empty array.
\<close>

definition joinLineSegments ::
  "offsetSegment list \<Rightarrow> real \<Rightarrow> nat \<Rightarrow> (error + pointObj list) option" where
  "joinLineSegments segments offs n =
     (case segments of
        [] \<Rightarrow> Some (Inr [])
      | first # _ \<Rightarrow>
          let (offsetSegments, n') =
                forEachPair segments
                  (\<lambda>s1 s2 (offsetSegments, k).
                     let (joins, k') = joinOuterAngles s1 s2 offs k
                     in ((offsetSegments @ joins) @ [offset s2], k'))
                  ([offset first], n)
          in cutInnerAngles offsetSegments n')"

text \<open>
  \<open>offsetPoints(pts, options)\<close>. \<open>L.LineUtil.simplify\<close> belongs to the host library
  and is a parameter here.
\<close>

definition offsetPoints ::
  "(point list \<Rightarrow> real \<Rightarrow> point list) \<Rightarrow> point list \<Rightarrow> real \<Rightarrow> real \<Rightarrow> nat
     \<Rightarrow> (error + pointObj list) option" where
  "offsetPoints simplify pts smoothFactor offs n =
     (let (offsetSegments, n') = offsetPointLine (simplify pts smoothFactor) offs n
      in joinLineSegments offsetSegments offs n')"

subsection \<open>Notions used in the statements\<close>

text \<open>
  The two end points of a segment lie strictly on opposite sides of the line through
  \<open>a\<close> and \<open>b\<close>: their signed areas have opposite, non-zero signs.
\<close>

definition oppositeSides :: "point \<Rightarrow> point \<Rightarrow> point \<Rightarrow> point \<Rightarrow> bool" where
  "oppositeSides a b p q =
     ((0 < signedArea a b p \<and> signedArea a b q < 0) \<or>
      (signedArea a b p < 0 \<and> 0 < signedArea a b q))"

text \<open>
  \<open>p\<close> is collinear with \<open>a\<close> and \<open>b\<close>: for \<open>a \<noteq> b\<close> it lies on the infinite
  line through them.
\<close>

definition onLine :: "point \<Rightarrow> point \<Rightarrow> point \<Rightarrow> bool" where
  "onLine a b p = (signedArea a b p = 0)"

text \<open>The direction vectors of the two point pairs are parallel (zero cross product).\<close>

definition parallelLines :: "point \<Rightarrow> point \<Rightarrow> point \<Rightarrow> point \<Rightarrow> bool" where
  "parallelLines l1a l1b l2a l2b =
     ((px l1b - px l1a) * (py l2b - py l2a) - (py l1b - py l1a) * (px l2b - px l2a) = 0)"

text \<open>Short forms for the concrete points and point objects of the examples.\<close>

abbreviation (input) mkPoint :: "real \<Rightarrow> real \<Rightarrow> point" where
  "mkPoint xv yv \<equiv> \<lparr>px = xv, py = yv\<rparr>"

abbreviation (input) mkObj :: "nat \<Rightarrow> real \<Rightarrow> real \<Rightarrow> pointObj" where
  "mkObj k xv yv \<equiv> \<lparr>oid = k, pos = \<lparr>px = xv, py = yv\<rparr>\<rparr>"

text \<open>
  The OffsetSegment expected for the \<open>i\<close>-th pair \<open>(a, b)\<close> of distinct consecutive
  points: heading \<open>atan2(a.y - b.y, a.x - b.x) - \<pi>/2\<close>, both points translated by
  \<open>distance\<close> along it; its two point objects are allocations \<open>n + 2i\<close> and
  \<open>n + 2i + 1\<close>.
\<close>

definition expectedOffsetSegment :: "real \<Rightarrow> nat \<Rightarrow> nat \<times> point \<times> point \<Rightarrow> offsetSegment" where
  "expectedOffsetSegment distance n = (\<lambda>(i, a, b).
     let theta = atan2 (py a - py b) (px a - px b) - pi / 2
     in \<lparr>offsetAngle = theta,
         original = (a, b),
         offset = (\<lparr>oid = n + 2 * i, pos = translatePoint a distance theta\<rparr>,
                   \<lparr>oid = n + 2 * i + 1, pos = translatePoint b distance theta\<rparr>)\<rparr>)"

text \<open>The consecutive pairs \<open>(a, b)\<close> of a point list with \<open>a \<noteq> b\<close>, in order.\<close>

definition distinctPairs :: "point list \<Rightarrow> (point \<times> point) list" where
  "distinctPairs points = filter (\<lambda>(a, b). a \<noteq> b) (zip points (tl points))"

text \<open>
  The angles between which \<open>circularArc\<close> samples: \<open>startAngle\<close>, and \<open>endAngle\<close>
  after the adjustment by \<open>2\<pi>\<close>.
\<close>

definition arcStartAngle :: "offsetSegment \<Rightarrow> offsetSegment \<Rightarrow> real \<Rightarrow> real" where
  "arcStartAngle s1 s2 distance = (if distance > 0 then offsetAngle s2 else offsetAngle s1)"

definition arcEndAngle :: "offsetSegment \<Rightarrow> offsetSegment \<Rightarrow> real \<Rightarrow> real" where
  "arcEndAngle s1 s2 distance =
     (let endAngle = (if distance > 0 then offsetAngle s1 else offsetAngle s2)
      in if endAngle < arcStartAngle s1 s2 distance then endAngle + pi * 2 else endAngle)"

definition distanceTo :: "point \<Rightarrow> point \<Rightarrow> real" where
  "distanceTo p c = sqrt ((px p - px c)\<^sup>2 + (py p - py c)\<^sup>2)"

abbreviation (input) mkSeg :: "real \<Rightarrow> point \<times> point \<Rightarrow> segment \<Rightarrow> offsetSegment" where
  "mkSeg ang orig offs \<equiv> \<lparr>offsetAngle = ang, original = orig, offset = offs\<rparr>"

text \<open>
  The two offset segments of the path \<open>(0,0), (10,0), (10,10)\<close> at distance \<open>-5\<close>
  (the outer side of the turn) and at distance \<open>5\<close> (the inner side).
\<close>

abbreviation (input) cornerS1 :: offsetSegment where
  "cornerS1 \<equiv> mkSeg (pi / 2) (mkPoint 0 0, mkPoint 10 0) (mkObj 0 0 (-5), mkObj 1 10 (-5))"

abbreviation (input) cornerS2 :: offsetSegment where
  "cornerS2 \<equiv> mkSeg (- pi) (mkPoint 10 0, mkPoint 10 10) (mkObj 2 15 0, mkObj 3 15 10)"



text \<open>
  The three offset segments of the path \<open>(0,0), (20,0), (23,4), (23,44)\<close> at distance 15:
  \<open>(0,15)-(20,15)\<close>, \<open>(8,9)-(11,13)\<close> and \<open>(8,4)-(8,44)\<close>.
\<close>

abbreviation (input) bendA :: offsetSegment where
  "bendA \<equiv> mkSeg (pi / 2) (mkPoint 0 0, mkPoint 20 0) (mkObj 0 0 15, mkObj 1 20 15)"

abbreviation (input) bendB :: offsetSegment where
  "bendB \<equiv> mkSeg (arctan (4 / 3) - 3 * pi / 2) (mkPoint 20 0, mkPoint 23 4)
             (mkObj 2 8 9, mkObj 3 11 13)"

abbreviation (input) bendC :: offsetSegment where
  "bendC \<equiv> mkSeg (- pi) (mkPoint 23 4, mkPoint 23 44) (mkObj 4 8 4, mkObj 5 8 44)"

section \<open>Properties\<close>

subsection \<open>The segment intersection test\<close>

text \<open>
  C6. For all four points, \<open>intersects\<close> is true exactly when both products of signed
  areas are strictly negative, that is when the end points of each segment lie strictly
  on opposite sides of the line through the other segment; it is false as soon as one end
  point is collinear with the other segment (one signed area is zero).
\<close>

theorem intersects_iff_opposite_sides:
  "(intersects l1a l1b l2a l2b \<longleftrightarrow>
      signedArea l1a l1b l2a * signedArea l1a l1b l2b < 0 \<and>
      signedArea l2a l2b l1a * signedArea l2a l2b l1b < 0) \<and>
   (intersects l1a l1b l2a l2b \<longleftrightarrow>
      oppositeSides l1a l1b l2a l2b \<and> oppositeSides l2a l2b l1a l1b) \<and>
   (signedArea l1a l1b l2a = 0 \<or> signedArea l1a l1b l2b = 0 \<or>
    signedArea l2a l2b l1a = 0 \<or> signedArea l2a l2b l1b = 0
      \<longrightarrow> \<not> intersects l1a l1b l2a l2b)"
  by (auto simp: intersects_def oppositeSides_def mult_less_0_iff)

theorem intersects_iff_opposite_sides_witness:
  "signedArea \<lparr>px = 0, py = 0\<rparr> \<lparr>px = 2, py = 0\<rparr> \<lparr>px = 1, py = 0\<rparr> = 0 \<and>
   \<not> intersects \<lparr>px = 0, py = 0\<rparr> \<lparr>px = 2, py = 0\<rparr> \<lparr>px = 1, py = 0\<rparr> \<lparr>px = 1, py = 3\<rparr> \<and>
   intersects \<lparr>px = 0, py = 0\<rparr> \<lparr>px = 2, py = 0\<rparr> \<lparr>px = 1, py = -1\<rparr> \<lparr>px = 1, py = 3\<rparr> \<and>
   oppositeSides \<lparr>px = 0, py = 0\<rparr> \<lparr>px = 2, py = 0\<rparr> \<lparr>px = 1, py = -1\<rparr> \<lparr>px = 1, py = 3\<rparr>"
proof -
  have z: "signedArea \<lparr>px = 0, py = 0\<rparr> \<lparr>px = 2, py = 0\<rparr> \<lparr>px = 1, py = 0\<rparr> = 0"
    by (simp add: signedArea_def)
  have i: "intersects \<lparr>px = 0, py = 0\<rparr> \<lparr>px = 2, py = 0\<rparr> \<lparr>px = 1, py = -1\<rparr> \<lparr>px = 1, py = 3\<rparr>"
    by (simp add: intersects_def signedArea_def)
  show ?thesis
    using z i
      intersects_iff_opposite_sides
        [of "\<lparr>px = 0, py = 0\<rparr>" "\<lparr>px = 2, py = 0\<rparr>" "\<lparr>px = 1, py = 0\<rparr>" "\<lparr>px = 1, py = 3\<rparr>"]
      intersects_iff_opposite_sides
        [of "\<lparr>px = 0, py = 0\<rparr>" "\<lparr>px = 2, py = 0\<rparr>" "\<lparr>px = 1, py = -1\<rparr>" "\<lparr>px = 1, py = 3\<rparr>"]
    by blast
qed


subsection \<open>Line equations and line intersection\<close>

lemma lineEquation_None: "lineEquation p1 p2 = None \<longleftrightarrow> p1 = p2"
  by (auto simp: lineEquation_def Let_def)

lemma lineEquation_Vertical:
  "lineEquation p1 p2 = Some (Vertical c) \<longleftrightarrow> px p1 = px p2 \<and> py p1 \<noteq> py p2 \<and> c = px p1"
  by (auto simp: lineEquation_def Let_def)

lemma lineEquation_Slope:
  "lineEquation p1 p2 = Some (Slope a b) \<longleftrightarrow>
     px p1 \<noteq> px p2 \<and> a = (py p2 - py p1) / (px p2 - px p1) \<and> b = py p1 - a * px p1"
  by (auto simp: lineEquation_def Let_def)

lemma slope_onLine:
  assumes "lineEquation a b = Some (Slope m c)"
  shows "onLine a b \<lparr>px = xv, py = m * xv + c\<rparr>"
proof -
  have ne: "px a \<noteq> px b" and m: "m = (py b - py a) / (px b - px a)" and c: "c = py a - m * px a"
    using assms by (simp_all add: lineEquation_Slope)
  have mm: "(px b - px a) * m = py b - py a"
    using ne by (simp add: m)
  have "signedArea a b \<lparr>px = xv, py = m * xv + c\<rparr>
          = (xv - px a) * ((px b - px a) * m - (py b - py a))"
    by (simp add: signedArea_def c algebra_simps)
  then show ?thesis by (simp add: mm onLine_def)
qed

lemma vertical_onLine:
  assumes "lineEquation a b = Some (Vertical c)"
  shows "onLine a b \<lparr>px = c, py = yv\<rparr>"
  using assms by (simp add: lineEquation_Vertical onLine_def signedArea_def)

lemma slope_parallel:
  assumes "lineEquation l1a l1b = Some (Slope a1 b1)" and "lineEquation l2a l2b = Some (Slope a2 b2)"
  shows "parallelLines l1a l1b l2a l2b \<longleftrightarrow> a1 = a2"
proof -
  have n1: "px l1a \<noteq> px l1b" and n2: "px l2a \<noteq> px l2b"
    and a1: "a1 = (py l1b - py l1a) / (px l1b - px l1a)"
    and a2: "a2 = (py l2b - py l2a) / (px l2b - px l2a)"
    using assms by (simp_all add: lineEquation_Slope)
  show ?thesis using n1 n2 unfolding a1 a2 parallelLines_def
    by (auto simp add: field_simps)
qed

lemma intersection_cases:
  "intersection l1a l1b l2a l2b =
     (case lineEquation l1a l1b of
        None \<Rightarrow> None
      | Some (Vertical x1) \<Rightarrow>
          (case lineEquation l2a l2b of
             None \<Rightarrow> None
           | Some (Vertical x2) \<Rightarrow> None
           | Some (Slope a2 b2) \<Rightarrow> Some \<lparr>px = x1, py = a2 * x1 + b2\<rparr>)
      | Some (Slope a1 b1) \<Rightarrow>
          (case lineEquation l2a l2b of
             None \<Rightarrow> None
           | Some (Vertical x2) \<Rightarrow> Some \<lparr>px = x2, py = a1 * x2 + b1\<rparr>
           | Some (Slope a2 b2) \<Rightarrow>
               (if a1 = a2 then None
                else Some \<lparr>px = (b2 - b1) / (a1 - a2), py = a1 * ((b2 - b1) / (a1 - a2)) + b1\<rparr>)))"
  by (simp add: intersection_def Let_def split: option.splits line.splits)

lemma intersection_None_iff:
  "intersection l1a l1b l2a l2b = None \<longleftrightarrow>
     l1a = l1b \<or> l2a = l2b \<or> parallelLines l1a l1b l2a l2b"
proof (cases "lineEquation l1a l1b")
  case None
  then show ?thesis by (simp add: intersection_cases lineEquation_None[symmetric])
next
  case s1: (Some e1)
  then have nd1: "l1a \<noteq> l1b" by (auto simp: lineEquation_None[symmetric])
  show ?thesis
  proof (cases "lineEquation l2a l2b")
    case None
    then show ?thesis
      by (simp add: intersection_cases lineEquation_None[symmetric] split: option.splits line.splits)
  next
    case s2: (Some e2)
    then have nd2: "l2a \<noteq> l2b" by (auto simp: lineEquation_None[symmetric])
    show ?thesis
    proof (cases e1)
      case v1: (Vertical x1)
      have g1: "px l1a = px l1b" "py l1a \<noteq> py l1b"
        using s1 v1 by (simp_all add: lineEquation_Vertical)
      show ?thesis
      proof (cases e2)
        case v2: (Vertical x2)
        have g2: "px l2a = px l2b" using s2 v2 by (simp add: lineEquation_Vertical)
        have "parallelLines l1a l1b l2a l2b" by (simp add: parallelLines_def g1 g2)
        then show ?thesis by (simp add: intersection_cases s1 s2 v1 v2)
      next
        case sl2: (Slope a2 b2)
        have g2: "px l2a \<noteq> px l2b" using s2 sl2 by (simp add: lineEquation_Slope)
        have "\<not> parallelLines l1a l1b l2a l2b" using g1 g2 by (simp add: parallelLines_def)
        then show ?thesis using nd1 nd2 by (simp add: intersection_cases s1 s2 v1 sl2)
      qed
    next
      case sl1: (Slope a1 b1)
      have g1: "px l1a \<noteq> px l1b" using s1 sl1 by (simp add: lineEquation_Slope)
      show ?thesis
      proof (cases e2)
        case v2: (Vertical x2)
        have g2: "px l2a = px l2b" "py l2a \<noteq> py l2b"
          using s2 v2 by (simp_all add: lineEquation_Vertical)
        have "\<not> parallelLines l1a l1b l2a l2b" using g1 g2 by (simp add: parallelLines_def)
        then show ?thesis using nd1 nd2 by (simp add: intersection_cases s1 s2 sl1 v2)
      next
        case sl2: (Slope a2 b2)
        have "parallelLines l1a l1b l2a l2b \<longleftrightarrow> a1 = a2"
          using slope_parallel s1 s2 sl1 sl2 by simp
        then show ?thesis using nd1 nd2 by (simp add: intersection_cases s1 s2 sl1 sl2)
      qed
    qed
  qed
qed

lemma intersection_onLine:
  assumes "intersection l1a l1b l2a l2b = Some p"
  shows "onLine l1a l1b p \<and> onLine l2a l2b p"
proof -
  have "intersection l1a l1b l2a l2b \<noteq> None"
    using assms by simp
  then have "lineEquation l1a l1b \<noteq> None" and "lineEquation l2a l2b \<noteq> None"
    by (simp_all add: intersection_None_iff lineEquation_None)
  then obtain e1 e2 where s1: "lineEquation l1a l1b = Some e1" and s2: "lineEquation l2a l2b = Some e2"
    by auto
  show ?thesis
  proof (cases e1)
    case v1: (Vertical x1)
    then obtain a2 b2 where sl2: "e2 = Slope a2 b2" and p: "p = \<lparr>px = x1, py = a2 * x1 + b2\<rparr>"
      using assms s1 s2 by (cases e2) (auto simp: intersection_cases)
    show ?thesis unfolding p
      using vertical_onLine[OF s1[unfolded v1]] slope_onLine[OF s2[unfolded sl2]] by simp
  next
    case sl1: (Slope a1 b1)
    show ?thesis
    proof (cases e2)
      case v2: (Vertical x2)
      then have p: "p = \<lparr>px = x2, py = a1 * x2 + b1\<rparr>"
        using assms s1 s2 sl1 by (auto simp: intersection_cases)
      show ?thesis unfolding p
        using vertical_onLine[OF s2[unfolded v2]] slope_onLine[OF s1[unfolded sl1]] by simp
    next
      case sl2: (Slope a2 b2)
      define xv where "xv = (b2 - b1) / (a1 - a2)"
      have ne: "a1 \<noteq> a2" and p: "p = \<lparr>px = xv, py = a1 * xv + b1\<rparr>"
        using assms s1 s2 sl1 sl2 by (auto simp: intersection_cases xv_def split: if_splits)
      have "(a1 - a2) * xv = b2 - b1" using ne by (simp add: xv_def)
      then have eq: "a1 * xv + b1 = a2 * xv + b2" by (simp add: algebra_simps)
      have "onLine l1a l1b \<lparr>px = xv, py = a1 * xv + b1\<rparr>"
        using slope_onLine[OF s1[unfolded sl1]] by simp
      moreover have "onLine l2a l2b \<lparr>px = xv, py = a1 * xv + b1\<rparr>"
        unfolding eq using slope_onLine[OF s2[unfolded sl2]] by simp
      ultimately show ?thesis unfolding p by simp
    qed
  qed
qed

lemma onLine_unique:
  assumes np: "\<not> parallelLines l1a l1b l2a l2b"
    and p: "onLine l1a l1b p" "onLine l2a l2b p"
    and q: "onLine l1a l1b q" "onLine l2a l2b q"
  shows "q = p"
proof -
  define ux uy vx vy where "ux = px l1b - px l1a" and "uy = py l1b - py l1a"
    and "vx = px l2b - px l2a" and "vy = py l2b - py l2a"
  define rx ry where "rx = px q - px p" and "ry = py q - py p"
  have det: "ux * vy - uy * vx \<noteq> 0"
    using np by (simp add: parallelLines_def ux_def uy_def vx_def vy_def)
  have e1: "ux * ry = rx * uy"
    using p(1) q(1) by (simp add: onLine_def signedArea_def ux_def uy_def rx_def ry_def algebra_simps)
  have e2: "vx * ry = rx * vy"
    using p(2) q(2) by (simp add: onLine_def signedArea_def vx_def vy_def rx_def ry_def algebra_simps)
  have "(ux * vy - uy * vx) * ry = 0" using e1 e2 by algebra
  moreover have "(ux * vy - uy * vx) * rx = 0" using e1 e2 by algebra
  ultimately have "rx = 0" "ry = 0" using det by simp_all
  then show ?thesis by (simp add: rx_def ry_def)
qed

lemma intersects_not_parallel:
  assumes "intersects l1a l1b l2a l2b"
  shows "l1a \<noteq> l1b \<and> l2a \<noteq> l2b \<and> \<not> parallelLines l1a l1b l2a l2b"
proof -
  have a: "signedArea l1a l1b l2a * signedArea l1a l1b l2b < 0"
    and b: "signedArea l2a l2b l1a * signedArea l2a l2b l1b < 0"
    using assms by (simp_all add: intersects_def)
  have 1: "l1a \<noteq> l1b" using a by (auto simp: signedArea_def)
  have 2: "l2a \<noteq> l2b" using b by (auto simp: signedArea_def)
  have 3: "\<not> parallelLines l1a l1b l2a l2b"
  proof
    assume "parallelLines l1a l1b l2a l2b"
    then have "signedArea l1a l1b l2b = signedArea l1a l1b l2a"
      by (simp add: parallelLines_def signedArea_def algebra_simps)
    then have "0 \<le> signedArea l1a l1b l2a * signedArea l1a l1b l2b" by simp
    then show False using a by simp
  qed
  show ?thesis using 1 2 3 by simp
qed

lemma intersects_intersection:
  "intersects l1a l1b l2a l2b \<Longrightarrow> \<exists>p. intersection l1a l1b l2a l2b = Some p"
  using intersects_not_parallel intersection_None_iff by (metis not_None_eq)


lemma intersection_None_cases:
  "intersection l1a l1b l2a l2b = None \<longleftrightarrow>
     l1a = l1b \<or> l2a = l2b \<or>
     (px l1a = px l1b \<and> px l2a = px l2b) \<or>
     (\<exists>a b1 b2. lineEquation l1a l1b = Some (Slope a b1) \<and>
                 lineEquation l2a l2b = Some (Slope a b2))"
proof (cases "l1a = l1b \<or> l2a = l2b")
  case True
  then show ?thesis by (auto simp: intersection_None_iff)
next
  case False
  then obtain e1 e2 where s1: "lineEquation l1a l1b = Some e1" and s2: "lineEquation l2a l2b = Some e2"
    using lineEquation_None by (metis not_None_eq)
  show ?thesis
  proof (cases e1)
    case v1: (Vertical x1)
    have g1: "px l1a = px l1b" using s1 v1 by (simp add: lineEquation_Vertical)
    show ?thesis
    proof (cases e2)
      case v2: (Vertical x2)
      have g2: "px l2a = px l2b" using s2 v2 by (simp add: lineEquation_Vertical)
      show ?thesis using g1 g2 by (simp add: intersection_cases s1 s2 v1 v2)
    next
      case sl2: (Slope a2 b2)
      have g2: "px l2a \<noteq> px l2b" using s2 sl2 by (simp add: lineEquation_Slope)
      show ?thesis using False g2 by (simp add: intersection_cases s1 s2 v1 sl2)
    qed
  next
    case sl1: (Slope a1 b1)
    have g1: "px l1a \<noteq> px l1b" using s1 sl1 by (simp add: lineEquation_Slope)
    show ?thesis
    proof (cases e2)
      case v2: (Vertical x2)
      show ?thesis using False g1 by (simp add: intersection_cases s1 s2 sl1 v2)
    next
      case sl2: (Slope a2 b2)
      show ?thesis using False g1 by (auto simp add: intersection_cases s1 s2 sl1 sl2)
    qed
  qed
qed

text \<open>
  C7. \<open>intersection\<close> returns \<open>null\<close> when both lines are vertical, when both have
  the same slope, and when one point pair is degenerate, and in no other case; these are
  the cases of a degenerate pair and of parallel or coincident lines. In every other case
  the result lies on both infinite lines and is the only such point. A vertical line has
  its own representation \<open>Vertical\<close>, and the slope form, the only one computed by a
  division, is produced only for a non-zero run \<open>pt2.x - pt1.x\<close>.
\<close>

theorem intersection_null_or_unique_point:
  "(px l1a = px l1b \<and> px l2a = px l2b \<longrightarrow> intersection l1a l1b l2a l2b = None) \<and>
   (lineEquation l1a l1b = Some (Slope a b1) \<and> lineEquation l2a l2b = Some (Slope a b2)
      \<longrightarrow> intersection l1a l1b l2a l2b = None) \<and>
   (l1a = l1b \<or> l2a = l2b \<longrightarrow> intersection l1a l1b l2a l2b = None) \<and>
   (intersection l1a l1b l2a l2b = None \<longleftrightarrow>
      l1a = l1b \<or> l2a = l2b \<or> parallelLines l1a l1b l2a l2b) \<and>
   (\<forall>p. intersection l1a l1b l2a l2b = Some p \<longrightarrow>
      onLine l1a l1b p \<and> onLine l2a l2b p \<and>
      (\<forall>q. onLine l1a l1b q \<and> onLine l2a l2b q \<longrightarrow> q = p)) \<and>
   (lineEquation l1a l1b = Some (Vertical c) \<longleftrightarrow>
      px l1a = px l1b \<and> py l1a \<noteq> py l1b \<and> c = px l1a) \<and>
   (lineEquation l1a l1b = Some (Slope m c') \<longrightarrow> px l1b - px l1a \<noteq> 0) \<and>
   (intersection l1a l1b l2a l2b = None \<longleftrightarrow>
      l1a = l1b \<or> l2a = l2b \<or>
      (px l1a = px l1b \<and> px l2a = px l2b) \<or>
      (\<exists>a b1 b2. lineEquation l1a l1b = Some (Slope a b1) \<and>
                  lineEquation l2a l2b = Some (Slope a b2)))"
proof -
  have both_vertical: "px l1a = px l1b \<and> px l2a = px l2b \<longrightarrow> intersection l1a l1b l2a l2b = None"
    by (simp add: intersection_None_iff parallelLines_def)
  have equal_slope: "lineEquation l1a l1b = Some (Slope a b1) \<and> lineEquation l2a l2b = Some (Slope a b2)
      \<longrightarrow> intersection l1a l1b l2a l2b = None"
    by (simp add: intersection_cases)
  have degenerate: "l1a = l1b \<or> l2a = l2b \<longrightarrow> intersection l1a l1b l2a l2b = None"
    by (simp add: intersection_None_iff)
  have point: "\<forall>p. intersection l1a l1b l2a l2b = Some p \<longrightarrow>
      onLine l1a l1b p \<and> onLine l2a l2b p \<and>
      (\<forall>q. onLine l1a l1b q \<and> onLine l2a l2b q \<longrightarrow> q = p)"
  proof (intro allI impI)
    fix p assume some: "intersection l1a l1b l2a l2b = Some p"
    then have on: "onLine l1a l1b p \<and> onLine l2a l2b p"
      by (rule intersection_onLine)
    have "intersection l1a l1b l2a l2b \<noteq> None" using some by simp
    then have np: "\<not> parallelLines l1a l1b l2a l2b"
      by (simp add: intersection_None_iff)
    have uniq: "\<forall>q. onLine l1a l1b q \<and> onLine l2a l2b q \<longrightarrow> q = p"
      using onLine_unique[OF np] on by blast
    show "onLine l1a l1b p \<and> onLine l2a l2b p \<and>
      (\<forall>q. onLine l1a l1b q \<and> onLine l2a l2b q \<longrightarrow> q = p)"
      by (intro conjI) (rule on[THEN conjunct1], rule on[THEN conjunct2], rule uniq)
  qed
  have slope: "lineEquation l1a l1b = Some (Slope m c') \<longrightarrow> px l1b - px l1a \<noteq> 0"
    by (simp add: lineEquation_Slope)
  show ?thesis
    by (intro conjI)
       (rule both_vertical, rule equal_slope, rule degenerate, rule intersection_None_iff,
        rule point, rule lineEquation_Vertical, rule slope, rule intersection_None_cases)
qed

theorem intersection_null_or_unique_point_witness:
  "intersection \<lparr>px = 0, py = 0\<rparr> \<lparr>px = 2, py = 2\<rparr> \<lparr>px = 0, py = 2\<rparr> \<lparr>px = 2, py = 0\<rparr>
     = Some \<lparr>px = 1, py = 1\<rparr> \<and>
   onLine \<lparr>px = 0, py = 0\<rparr> \<lparr>px = 2, py = 2\<rparr> \<lparr>px = 1, py = 1\<rparr> \<and>
   onLine \<lparr>px = 0, py = 2\<rparr> \<lparr>px = 2, py = 0\<rparr> \<lparr>px = 1, py = 1\<rparr> \<and>
   lineEquation \<lparr>px = 0, py = 0\<rparr> \<lparr>px = 2, py = 2\<rparr> = Some (Slope 1 0) \<and>
   px \<lparr>px = 2, py = 2\<rparr> - px \<lparr>px = 0, py = 0\<rparr> \<noteq> 0"
proof -
  have v: "intersection \<lparr>px = 0, py = 0\<rparr> \<lparr>px = 2, py = 2\<rparr> \<lparr>px = 0, py = 2\<rparr> \<lparr>px = 2, py = 0\<rparr>
     = Some \<lparr>px = 1, py = 1\<rparr>"
    by (simp add: intersection_def lineEquation_def)
  have l: "lineEquation \<lparr>px = 0, py = 0\<rparr> \<lparr>px = 2, py = 2\<rparr> = Some (Slope 1 0)"
    by (simp add: lineEquation_def)
  note inst = intersection_null_or_unique_point
      [of "\<lparr>px = 0, py = 0\<rparr>" "\<lparr>px = 2, py = 2\<rparr>" "\<lparr>px = 0, py = 2\<rparr>" "\<lparr>px = 2, py = 0\<rparr>"
          1 0 0 0 1 0]
  note pt = inst[THEN conjunct2, THEN conjunct2, THEN conjunct2, THEN conjunct2, THEN conjunct1,
                 rule_format, OF v]
  note dv = inst[THEN conjunct2, THEN conjunct2, THEN conjunct2, THEN conjunct2, THEN conjunct2,
                 THEN conjunct2, THEN conjunct1, rule_format, OF l]
  show ?thesis
    using v l pt dv by (intro conjI) simp_all
qed


subsection \<open>Seam cutter\<close>

lemma length_spliceOut:
  "start + cnt \<le> length xs \<Longrightarrow> length (spliceOut xs start cnt) = length xs - cnt"
  by (simp add: spliceOut_def)

lemma hd_spliceOut:
  "xs \<noteq> [] \<Longrightarrow> spliceOut xs (Suc k) cnt \<noteq> [] \<and> hd (spliceOut xs (Suc k) cnt) = hd xs"
  by (cases xs) (simp_all add: spliceOut_def)

lemma cutAt_Inr:
  assumes "intersectsSeg (segs st ! j) (segs st ! (cur st + 1))"
  shows "\<exists>pv. intersectionSeg (segs st ! j) (segs st ! (cur st + 1)) = Some pv \<and>
         cutAt j st =
           Inr \<lparr>cur = j + 1,
                segs = (let p = \<lparr>oid = fresh st, pos = pv\<rparr>;
                            segments1 = (segs st)[j := (fst (segs st ! j), p)];
                            segments2 = segments1[cur st + 1 := (p, snd (segments1 ! (cur st + 1)))]
                        in if j < cur st then spliceOut segments2 (j + 1) (cur st - j) else segments2),
                fresh = fresh st + 1\<rparr>"
proof -
  obtain pv where pv: "intersectionSeg (segs st ! j) (segs st ! (cur st + 1)) = Some pv"
    using assms intersects_intersection unfolding intersectsSeg_def intersectionSeg_def by blast
  show ?thesis
    using pv by (intro exI[of _ pv]) (simp add: cutAt_def Let_def)
qed

lemma cutAt_props:
  assumes hit: "intersectsSeg (segs st ! j) (segs st ! (cur st + 1))"
    and j: "j \<le> cur st" and i: "cur st + 1 < length (segs st)"
  shows "\<exists>st'. cutAt j st = Inr st' \<and>
           length (segs st') - cur st' < length (segs st) - cur st \<and>
           (cur st < cur st' \<or> length (segs st') < length (segs st)) \<and>
           segs st' \<noteq> [] \<and> fst (hd (segs st')) = fst (hd (segs st))"
proof -
  obtain pv where eq: "cutAt j st =
           Inr \<lparr>cur = j + 1,
                segs = (let p = \<lparr>oid = fresh st, pos = pv\<rparr>;
                            segments1 = (segs st)[j := (fst (segs st ! j), p)];
                            segments2 = segments1[cur st + 1 := (p, snd (segments1 ! (cur st + 1)))]
                        in if j < cur st then spliceOut segments2 (j + 1) (cur st - j) else segments2),
                fresh = fresh st + 1\<rparr>"
    using cutAt_Inr[OF hit] by blast
  define p where "p = \<lparr>oid = fresh st, pos = pv\<rparr>"
  define segments1 where "segments1 = (segs st)[j := (fst (segs st ! j), p)]"
  define segments2 where "segments2 = segments1[cur st + 1 := (p, snd (segments1 ! (cur st + 1)))]"
  define segments3 where
    "segments3 = (if j < cur st then spliceOut segments2 (j + 1) (cur st - j) else segments2)"
  have eq': "cutAt j st = Inr \<lparr>cur = j + 1, segs = segments3, fresh = fresh st + 1\<rparr>"
    by (simp add: eq segments3_def segments2_def segments1_def p_def Let_def)
  have len2: "length segments2 = length (segs st)"
    by (simp add: segments2_def segments1_def)
  have ne: "segs st \<noteq> []" using i by auto
  have ne2: "segments2 \<noteq> []" using len2 ne by auto
  have hd1: "fst (hd segments1) = fst (hd (segs st))"
    using ne by (cases "segs st"; cases j) (simp_all add: segments1_def)
  have hd2: "hd segments2 = hd segments1"
    by (cases segments1) (simp_all add: segments2_def)
  have len3: "length segments3 = length (segs st) - (cur st - j)"
    using i j by (simp add: segments3_def len2 length_spliceOut)
  have hd3: "segments3 \<noteq> [] \<and> hd segments3 = hd segments2"
    using ne2 hd_spliceOut[OF ne2, of j "cur st - j"] by (simp add: segments3_def)
  show ?thesis
    using i j len3 hd3 hd2 hd1 by (simp add: eq') linarith
qed

lemma dropNext_props:
  assumes i: "cur st + 1 < length (segs st)"
  shows "length (segs (dropNext st)) - cur (dropNext st) < length (segs st) - cur st \<and>
         cur st < cur (dropNext st) \<and> length (segs (dropNext st)) < length (segs st) \<and>
         segs (dropNext st) \<noteq> [] \<and> fst (hd (segs (dropNext st))) = fst (hd (segs st))"
proof -
  have ne: "segs st \<noteq> []" using i by auto
  have len: "length (segs (dropNext st)) = length (segs st) - 1"
    using i by (simp add: dropNext_def length_spliceOut)
  show ?thesis
    using i len hd_spliceOut[OF ne, of "cur st" 1] by (simp add: dropNext_def) linarith
qed

lemma searchBack_props:
  assumes "j \<le> cur st" and "cur st + 1 < length (segs st)"
  shows "\<exists>st'. searchBack j st = Inr st' \<and>
           length (segs st') - cur st' < length (segs st) - cur st \<and>
           (cur st < cur st' \<or> length (segs st') < length (segs st)) \<and>
           segs st' \<noteq> [] \<and> fst (hd (segs st')) = fst (hd (segs st))"
  using assms
proof (induction j)
  case 0
  show ?case
  proof (cases "intersectsSeg (segs st ! 0) (segs st ! (cur st + 1))")
    case True
    then show ?thesis using cutAt_props[OF True] 0 by simp
  next
    case False
    then show ?thesis using dropNext_props[OF 0(2)] by simp
  qed
next
  case (Suc j)
  show ?case
  proof (cases "intersectsSeg (segs st ! Suc j) (segs st ! (cur st + 1))")
    case True
    then show ?thesis using cutAt_props[OF True] Suc.prems by simp
  next
    case False
    then show ?thesis using Suc by simp
  qed
qed

lemma searchBack_none:
  assumes "\<forall>k \<le> j. \<not> intersectsSeg (segs st ! k) (segs st ! (cur st + 1))"
  shows "searchBack j st = Inr (dropNext st)"
  using assms by (induction j) simp_all

lemma cutStep_props:
  assumes i: "cur st + 1 < length (segs st)"
  shows "\<exists>st'. cutStep st = Inr st' \<and>
           length (segs st') - cur st' < length (segs st) - cur st \<and>
           (cur st < cur st' \<or> length (segs st') < length (segs st)) \<and>
           segs st' \<noteq> [] \<and> fst (hd (segs st')) = fst (hd (segs st))"
proof (cases "sameObj (snd (segs st ! cur st)) (fst (segs st ! (cur st + 1)))")
  case True
  have "segs st \<noteq> []" using i by auto
  then show ?thesis using True i by (simp add: cutStep_def)
next
  case False
  then show ?thesis using searchBack_props[OF le_refl i] by (simp add: cutStep_def)
qed

lemma cutLoop_result:
  "\<exists>st'. cutLoop st = Some (Inr st') \<and> length (segs st') \<le> cur st' + 1 \<and>
         (segs st \<noteq> [] \<longrightarrow> segs st' \<noteq> [] \<and> fst (hd (segs st')) = fst (hd (segs st)))"
proof (induction "length (segs st) - cur st" arbitrary: st rule: less_induct)
  case less
  show ?case
  proof (cases "length (segs st) \<le> cur st + 1")
    case True
    then show ?thesis by (subst cutLoop.simps) simp
  next
    case False
    then have i: "cur st + 1 < length (segs st)" by simp
    obtain st1 where step: "cutStep st = Inr st1"
      and dec: "length (segs st1) - cur st1 < length (segs st) - cur st"
      and ne: "segs st1 \<noteq> []" and hd: "fst (hd (segs st1)) = fst (hd (segs st))"
      using cutStep_props[OF i] by blast
    obtain st' where fin: "cutLoop st1 = Some (Inr st')" and stop: "length (segs st') \<le> cur st' + 1"
      and inv: "segs st1 \<noteq> [] \<longrightarrow> segs st' \<noteq> [] \<and> fst (hd (segs st')) = fst (hd (segs st1))"
      using less[OF dec] by blast
    have "cutLoop st = Some (Inr st')"
      using False by (subst cutLoop.simps) (simp add: step fin)
    then show ?thesis using stop inv ne hd by simp
  qed
qed

text \<open>
  A list in which every segment ends in the object the next one starts with passes the
  scan unchanged.
\<close>

lemma cutLoop_connected:
  assumes "\<forall>k. cur st \<le> k \<and> k + 1 < length (segs st)
             \<longrightarrow> sameObj (snd (segs st ! k)) (fst (segs st ! (k + 1)))"
  shows "\<exists>i. cutLoop st = Some (Inr (st\<lparr>cur := i\<rparr>))"
  using assms
proof (induction "length (segs st) - cur st" arbitrary: st rule: less_induct)
  case less
  show ?case
  proof (cases "length (segs st) \<le> cur st + 1")
    case True
    then have "cutLoop st = Some (Inr (st\<lparr>cur := cur st\<rparr>))"
      by (subst cutLoop.simps) simp
    then show ?thesis by blast
  next
    case False
    then have i: "cur st + 1 < length (segs st)" by simp
    have same: "sameObj (snd (segs st ! cur st)) (fst (segs st ! (cur st + 1)))"
      using less.prems i by simp
    have step: "cutStep st = Inr (st\<lparr>cur := cur st + 1\<rparr>)"
      using same by (simp add: cutStep_def)
    have dec: "length (segs (st\<lparr>cur := cur st + 1\<rparr>)) - cur (st\<lparr>cur := cur st + 1\<rparr>)
                 < length (segs st) - cur st"
      using i by simp
    have conn: "\<forall>k. cur (st\<lparr>cur := cur st + 1\<rparr>) \<le> k \<and>
                    k + 1 < length (segs (st\<lparr>cur := cur st + 1\<rparr>))
             \<longrightarrow> sameObj (snd (segs (st\<lparr>cur := cur st + 1\<rparr>) ! k))
                          (fst (segs (st\<lparr>cur := cur st + 1\<rparr>) ! (k + 1)))"
      using less.prems by simp
    obtain i' where "cutLoop (st\<lparr>cur := cur st + 1\<rparr>) = Some (Inr (st\<lparr>cur := cur st + 1, cur := i'\<rparr>))"
      using less.hyps[OF dec conn] by auto
    then have "cutLoop st = Some (Inr (st\<lparr>cur := i'\<rparr>))"
      using False by (subst cutLoop.simps) (simp add: step)
    then show ?thesis by blast
  qed
qed

lemma cutInnerAngles_connected:
  assumes "\<forall>k. k + 1 < length segments
             \<longrightarrow> sameObj (snd (segments ! k)) (fst (segments ! (k + 1)))"
  shows "cutInnerAngles segments n = Some (collectPoints segments)"
proof -
  obtain i where "cutLoop \<lparr>cur = 0, segs = segments, fresh = n\<rparr>
                    = Some (Inr (\<lparr>cur = 0, segs = segments, fresh = n\<rparr>\<lparr>cur := i\<rparr>))"
    using cutLoop_connected[of "\<lparr>cur = 0, segs = segments, fresh = n\<rparr>"] assms by auto
  then show ?thesis by (simp add: cutInnerAngles_def)
qed

text \<open>Two crossing segments are clipped at their intersection point, a new object.\<close>

lemma cutInnerAngles_crossing_example:
  "cutInnerAngles [(mkObj 0 0 0, mkObj 1 4 4), (mkObj 2 0 4, mkObj 3 4 0)] 4
     = Some (Inr [mkObj 0 0 0, mkObj 4 2 2, mkObj 3 4 0])"
  by (simp add: cutInnerAngles_def cutLoop.simps cutStep_def cutAt_def dropNext_def spliceOut_def
        collectPoints_def sameObj_def intersectsSeg_def intersects_def signedArea_def
        intersectionSeg_def intersection_def lineEquation_def Let_def)

text \<open>
  The branch \<open>j == 0\<close> in general: when the end of segment \<open>i\<close> is not the start of
  segment \<open>i+1\<close> and no segment \<open>j \<le> i\<close> intersects segment \<open>i+1\<close>, the segment at
  position \<open>i+1\<close> is spliced out and the cursor is incremented.
\<close>

lemma cutStep_drop_advances:
  assumes "cur st + 1 < length (segs st)"
    and "\<not> sameObj (snd (segs st ! cur st)) (fst (segs st ! (cur st + 1)))"
    and "\<forall>j \<le> cur st. \<not> intersectsSeg (segs st ! j) (segs st ! (cur st + 1))"
  shows "cutStep st =
           Inr \<lparr>cur = cur st + 1,
                segs = take (cur st + 1) (segs st) @ drop (cur st + 2) (segs st),
                fresh = fresh st\<rparr>"
  using assms(2) searchBack_none[OF assms(3)]
  by (simp add: cutStep_def dropNext_def spliceOut_def)

text \<open>
  C8. The scan of \<open>cutInnerAngles\<close> ends for every segment list: the outer loop returns
  from every state, and every iteration of it either advances the cursor or strictly
  shrinks the list; in both cases \<open>segments.length - i\<close> decreases.
\<close>

theorem cutInnerAngles_terminates:
  "(\<exists>st'. cutLoop st = Some (Inr st')) \<and>
   (\<exists>r. cutInnerAngles segments n = Some r) \<and>
   (cur st + 1 < length (segs st) \<longrightarrow>
      (\<exists>st1. cutStep st = Inr st1 \<and>
         (cur st < cur st1 \<or> length (segs st1) < length (segs st)) \<and>
         length (segs st1) - cur st1 < length (segs st) - cur st))"
proof -
  have a: "\<exists>st'. cutLoop st = Some (Inr st')"
    using cutLoop_result[of st] by blast
  obtain st' where "cutLoop \<lparr>cur = 0, segs = segments, fresh = n\<rparr> = Some (Inr st')"
    using cutLoop_result[of "\<lparr>cur = 0, segs = segments, fresh = n\<rparr>"] by blast
  then have b: "\<exists>r. cutInnerAngles segments n = Some r"
    by (simp add: cutInnerAngles_def)
  have c: "cur st + 1 < length (segs st) \<longrightarrow>
      (\<exists>st1. cutStep st = Inr st1 \<and>
         (cur st < cur st1 \<or> length (segs st1) < length (segs st)) \<and>
         length (segs st1) - cur st1 < length (segs st) - cur st)"
    using cutStep_props[of st] by blast
  show ?thesis by (intro conjI) (rule a, rule b, rule c)
qed

theorem cutInnerAngles_terminates_witness:
  "cur \<lparr>cur = 0, segs = [(mkObj 0 0 0, mkObj 1 4 4), (mkObj 2 0 4, mkObj 3 4 0)], fresh = 4\<rparr> + 1
     < length (segs \<lparr>cur = 0, segs = [(mkObj 0 0 0, mkObj 1 4 4), (mkObj 2 0 4, mkObj 3 4 0)],
                     fresh = 4\<rparr>) \<and>
   (\<exists>st1. cutStep \<lparr>cur = 0, segs = [(mkObj 0 0 0, mkObj 1 4 4), (mkObj 2 0 4, mkObj 3 4 0)],
                    fresh = 4\<rparr> = Inr st1 \<and>
          (0 < cur st1 \<or> length (segs st1) < Suc (Suc 0)) \<and>
          length (segs st1) - cur st1 < Suc (Suc 0))"
proof -
  let ?st = "\<lparr>cur = 0, segs = [(mkObj 0 0 0, mkObj 1 4 4), (mkObj 2 0 4, mkObj 3 4 0)], fresh = 4\<rparr>"
  have g: "cur ?st + 1 < length (segs ?st)" by simp
  have s: "\<exists>st1. cutStep ?st = Inr st1 \<and>
          (0 < cur st1 \<or> length (segs st1) < Suc (Suc 0)) \<and>
          length (segs st1) - cur st1 < Suc (Suc 0)"
    using cutInnerAngles_terminates
               [of ?st "[]" 0, THEN conjunct2, THEN conjunct2, rule_format, OF g]
    by simp
  show ?thesis by (intro conjI) (rule g, rule s)
qed

text \<open>
  C9. For every non-empty segment list \<open>cutInnerAngles\<close> returns a point sequence whose
  first point is the start point of the first input segment (the same object): every
  iteration keeps the list non-empty and leaves \<open>segments[0][0]\<close> as it is.
\<close>

theorem cutInnerAngles_first_point:
  "(\<exists>pts. cutInnerAngles (s0 # rest) n = Some (Inr (fst s0 # pts))) \<and>
   (cur st + 1 < length (segs st) \<longrightarrow>
      (\<exists>st1. cutStep st = Inr st1 \<and> segs st1 \<noteq> [] \<and>
             fst (hd (segs st1)) = fst (hd (segs st))))"
proof -
  obtain st' where fin: "cutLoop \<lparr>cur = 0, segs = s0 # rest, fresh = n\<rparr> = Some (Inr st')"
    and ne: "segs st' \<noteq> []" and hd: "fst (hd (segs st')) = fst s0"
    using cutLoop_result[of "\<lparr>cur = 0, segs = s0 # rest, fresh = n\<rparr>"] by auto
  obtain t0 ts where ts: "segs st' = t0 # ts"
    using ne by (cases "segs st'") auto
  have "cutInnerAngles (s0 # rest) n = Some (Inr (fst s0 # map snd (segs st')))"
    using hd by (simp add: cutInnerAngles_def fin collectPoints_def ts)
  then have a: "\<exists>pts. cutInnerAngles (s0 # rest) n = Some (Inr (fst s0 # pts))"
    by blast
  have b: "cur st + 1 < length (segs st) \<longrightarrow>
      (\<exists>st1. cutStep st = Inr st1 \<and> segs st1 \<noteq> [] \<and>
             fst (hd (segs st1)) = fst (hd (segs st)))"
    using cutStep_props[of st] by blast
  show ?thesis by (intro conjI) (rule a, rule b)
qed

theorem cutInnerAngles_first_point_witness:
  "cur \<lparr>cur = 0, segs = [(mkObj 0 0 0, mkObj 1 4 4), (mkObj 2 0 4, mkObj 3 4 0)], fresh = 4\<rparr> + 1
     < length (segs \<lparr>cur = 0, segs = [(mkObj 0 0 0, mkObj 1 4 4), (mkObj 2 0 4, mkObj 3 4 0)],
                     fresh = 4\<rparr>) \<and>
   (\<exists>st1. cutStep \<lparr>cur = 0, segs = [(mkObj 0 0 0, mkObj 1 4 4), (mkObj 2 0 4, mkObj 3 4 0)],
                    fresh = 4\<rparr> = Inr st1 \<and>
          segs st1 \<noteq> [] \<and> fst (hd (segs st1)) = mkObj 0 0 0) \<and>
   (\<exists>pts. cutInnerAngles [(mkObj 0 0 0, mkObj 1 4 4), (mkObj 2 0 4, mkObj 3 4 0)] 4
            = Some (Inr (mkObj 0 0 0 # pts)))"
proof -
  let ?st = "\<lparr>cur = 0, segs = [(mkObj 0 0 0, mkObj 1 4 4), (mkObj 2 0 4, mkObj 3 4 0)], fresh = 4\<rparr>"
  note inst = cutInnerAngles_first_point
      [of "(mkObj 0 0 0, mkObj 1 4 4)" "[(mkObj 2 0 4, mkObj 3 4 0)]" 4 ?st]
  have g: "cur ?st + 1 < length (segs ?st)" by simp
  have s: "\<exists>st1. cutStep ?st = Inr st1 \<and> segs st1 \<noteq> [] \<and> fst (hd (segs st1)) = mkObj 0 0 0"
    using inst[THEN conjunct2, rule_format, OF g] by simp
  have c: "\<exists>pts. cutInnerAngles [(mkObj 0 0 0, mkObj 1 4 4), (mkObj 2 0 4, mkObj 3 4 0)] 4
            = Some (Inr (mkObj 0 0 0 # pts))"
    using inst[THEN conjunct1] by simp
  show ?thesis by (intro conjI) (rule g, rule s, rule c)
qed


subsection \<open>Segment offsetter\<close>

lemma expectedOffsetSegment_shift:
  "map (expectedOffsetSegment d (k + 2)) (enumerate m ps)
     = map (expectedOffsetSegment d k) (enumerate (Suc m) ps)"
  by (induction ps arbitrary: m) (simp_all add: expectedOffsetSegment_def)

lemma point_eq_iff: "(a :: point) = b \<longleftrightarrow> px a = px b \<and> py a = py b"
  by auto

lemma offsetPointLine_loop:
  "forEachPair points
       (\<lambda>a b (offsetSegments, k).
          if px a = px b \<and> py a = py b then (offsetSegments, k)
          else let segmentAngle = atan2 (py a - py b) (px a - px b);
                   offsetAngle = segmentAngle - pi / 2
               in (offsetSegments @
                     [\<lparr>offsetAngle = offsetAngle,
                       original = (a, b),
                       offset = (\<lparr>oid = k, pos = translatePoint a distance offsetAngle\<rparr>,
                                 \<lparr>oid = k + 1, pos = translatePoint b distance offsetAngle\<rparr>)\<rparr>],
                   k + 2))
       (acc, n)
     = (acc @ map (expectedOffsetSegment distance n) (enumerate 0 (distinctPairs points)),
        n + 2 * length (distinctPairs points))"
proof (induction points arbitrary: acc n rule: induct_list012)
  case 1
  show ?case by (simp add: distinctPairs_def)
next
  case (2 a)
  show ?case by (simp add: distinctPairs_def)
next
  case (3 a b rest)
  show ?case
  proof (cases "a = b")
    case True
    have dp: "distinctPairs (a # b # rest) = distinctPairs (b # rest)"
      using True by (simp add: distinctPairs_def)
    show ?thesis
      unfolding dp using True 3(2)[of acc n] by simp
  next
    case False
    have dp: "distinctPairs (a # b # rest) = (a, b) # distinctPairs (b # rest)"
      using False by (simp add: distinctPairs_def)
    have ne: "\<not> (px a = px b \<and> py a = py b)"
      using False by (simp add: point_eq_iff)
    show ?thesis
      unfolding dp using ne
      by (simp add: 3(2) Let_def expectedOffsetSegment_shift[symmetric])
         (simp add: expectedOffsetSegment_def Let_def)
  qed
qed

lemma offsetPointLine_eq:
  "offsetPointLine points distance n
     = (map (expectedOffsetSegment distance n) (enumerate 0 (distinctPairs points)),
        n + 2 * length (distinctPairs points))"
  unfolding offsetPointLine_def using offsetPointLine_loop[of points distance "[]" n] by simp

text \<open>
  C5. \<open>offsetPointLine\<close> produces exactly one OffsetSegment per consecutive pair of
  distinct input points, in order, each with heading \<open>atan2(a.y - b.y, a.x - b.x) - \<pi>/2\<close>,
  the original pair, and both points translated by \<open>distance\<close> along that heading. A
  repeated point adds nothing, and the empty and the one-point input give the empty list.
\<close>

theorem offsetPointLine_segments:
  "fst (offsetPointLine points distance n)
     = map (expectedOffsetSegment distance n) (enumerate 0 (distinctPairs points)) \<and>
   length (fst (offsetPointLine points distance n)) = length (distinctPairs points) \<and>
   offsetPointLine (p # p # points) distance n = offsetPointLine (p # points) distance n \<and>
   offsetPointLine [] distance n = ([], n) \<and>
   offsetPointLine [p] distance n = ([], n)"
  by (simp add: offsetPointLine_eq distinctPairs_def)

theorem offsetPointLine_segments_witness:
  "distinctPairs [mkPoint 0 0, mkPoint 0 0, mkPoint 10 0, mkPoint 10 10]
     = [(mkPoint 0 0, mkPoint 10 0), (mkPoint 10 0, mkPoint 10 10)] \<and>
   fst (offsetPointLine [mkPoint 0 0, mkPoint 0 0, mkPoint 10 0, mkPoint 10 10] (-5) 0)
     = [cornerS1, cornerS2]"
proof -
  have d: "distinctPairs [mkPoint 0 0, mkPoint 0 0, mkPoint 10 0, mkPoint 10 10]
     = [(mkPoint 0 0, mkPoint 10 0), (mkPoint 10 0, mkPoint 10 10)]"
    by (simp add: distinctPairs_def)
  have "fst (offsetPointLine [mkPoint 0 0, mkPoint 0 0, mkPoint 10 0, mkPoint 10 10] (-5) 0)
     = [cornerS1, cornerS2]"
    using offsetPointLine_segments
      [of "[mkPoint 0 0, mkPoint 0 0, mkPoint 10 0, mkPoint 10 10]" "-5" 0, THEN conjunct1]
    unfolding d
    by (simp add: expectedOffsetSegment_def enumerate_eq_zip atan2_def translatePoint_def Let_def)
  then show ?thesis using d by simp
qed

lemma example_offset:
  "offsetPointLine [mkPoint 0 0, mkPoint 10 0, mkPoint 10 10] (-5) 0
     = ([mkSeg (pi / 2) (mkPoint 0 0, mkPoint 10 0) (mkObj 0 0 (-5), mkObj 1 10 (-5)),
         mkSeg (- pi) (mkPoint 10 0, mkPoint 10 10) (mkObj 2 15 0, mkObj 3 15 10)], 4)"
  by (simp add: offsetPointLine_def atan2_def translatePoint_def Let_def)

subsection \<open>Join resolver\<close>

lemma pairSegments_loop:
  "forEachPair points (\<lambda>p1 p2 offsetSegments. offsetSegments @ [(p1, p2)]) acc
     = acc @ zip points (tl points)"
  by (induction points arbitrary: acc rule: induct_list012) simp_all

lemma pairSegments_eq: "pairSegments points = zip points (tl points)"
  by (simp add: pairSegments_def pairSegments_loop)

lemma translatePoint_distance: "distanceTo (translatePoint c d alpha) c = \<bar>d\<bar>"
proof -
  have "(d * cos alpha)\<^sup>2 + (d * sin alpha)\<^sup>2 = d\<^sup>2 * (cos alpha)\<^sup>2 + d\<^sup>2 * (sin alpha)\<^sup>2"
    by (simp only: power_mult_distrib)
  also have "\<dots> = d\<^sup>2 * ((cos alpha)\<^sup>2 + (sin alpha)\<^sup>2)"
    by (simp only: distrib_left)
  also have "\<dots> = d\<^sup>2"
    by simp
  finally have "(d * cos alpha)\<^sup>2 + (d * sin alpha)\<^sup>2 = d\<^sup>2" .
  then show ?thesis
    by (simp add: distanceTo_def translatePoint_def)
qed

lemma arcLoop_samples:
  "\<exists>m. arcLoop center distance alpha endAngle k
          = map (\<lambda>i. \<lparr>oid = k + i, pos = translatePoint center distance (alpha + real i * (pi / 8))\<rparr>)
                [0..<m] \<and>
        (\<forall>i<m. alpha + real i * (pi / 8) < endAngle) \<and>
        endAngle \<le> alpha + real m * (pi / 8)"
proof (induction center distance alpha endAngle k rule: arcLoop.induct)
  case (1 center distance alpha endAngle k)
  show ?case
  proof (cases "alpha < endAngle")
    case False
    have "arcLoop center distance alpha endAngle k = []"
      using False by (subst arcLoop.simps) simp
    then show ?thesis using False by (intro exI[of _ 0]) simp
  next
    case True
    obtain m where rest: "arcLoop center distance (alpha + pi / 8) endAngle (k + 1)
          = map (\<lambda>i. \<lparr>oid = k + 1 + i,
                       pos = translatePoint center distance (alpha + pi / 8 + real i * (pi / 8))\<rparr>)
                [0..<m]"
      and below: "\<forall>i<m. alpha + pi / 8 + real i * (pi / 8) < endAngle"
      and stop: "endAngle \<le> alpha + pi / 8 + real m * (pi / 8)"
      using 1[OF True] by blast
    have shift: "\<And>i. alpha + pi / 8 + real i * (pi / 8) = alpha + real (Suc i) * (pi / 8)"
      by (simp add: algebra_simps)
    have unfold: "arcLoop center distance alpha endAngle k
          = \<lparr>oid = k, pos = translatePoint center distance alpha\<rparr>
              # arcLoop center distance (alpha + pi / 8) endAngle (k + 1)"
      using True by (subst arcLoop.simps) simp
    have list: "arcLoop center distance alpha endAngle k
          = map (\<lambda>i. \<lparr>oid = k + i, pos = translatePoint center distance (alpha + real i * (pi / 8))\<rparr>)
                [0..<Suc m]"
      unfolding unfold rest shift
      by (simp add: upt_conv_Cons map_Suc_upt[symmetric] del: upt_Suc)
    have below': "\<forall>i<Suc m. alpha + real i * (pi / 8) < endAngle"
    proof (intro allI impI)
      fix i assume "i < Suc m"
      show "alpha + real i * (pi / 8) < endAngle"
      proof (cases i)
        case 0
        then show ?thesis using True by simp
      next
        case (Suc i')
        then have "i' < m" using \<open>i < Suc m\<close> by simp
        then have "alpha + pi / 8 + real i' * (pi / 8) < endAngle"
          using below by blast
        then show ?thesis unfolding Suc shift .
      qed
    qed
    have stop': "endAngle \<le> alpha + real (Suc m) * (pi / 8)"
      using stop unfolding shift .
    show ?thesis
      using list below' stop' by (intro exI[of _ "Suc m"]) simp
  qed
qed

lemma circularArc_none:
  "offsetAngle s1 = offsetAngle s2 \<or> getSignedAngle (offset s1) (offset s2) * distance > 0
     \<Longrightarrow> circularArc s1 s2 distance n = ([], n)"
  by (auto simp: circularArc_def Let_def)

lemma zip_chain: "zip (a # xs @ [b]) (xs @ [b]) = zip (a # xs) (xs @ [b])"
  by (induction xs arbitrary: a) simp_all

lemma circularArc_outer_eq:
  assumes "offsetAngle s1 \<noteq> offsetAngle s2"
    and "\<not> getSignedAngle (offset s1) (offset s2) * distance > 0"
  shows "circularArc s1 s2 distance n =
           (let samples = arcLoop (snd (original s1)) distance
                            (arcStartAngle s1 s2 distance + pi / 8) (arcEndAngle s1 s2 distance) n
            in (zip (snd (offset s1) # (if distance > 0 then rev samples else samples))
                    ((if distance > 0 then rev samples else samples) @ [fst (offset s2)]),
                n + length samples))"
  using assms
  by (simp add: circularArc_def Let_def arcStartAngle_def arcEndAngle_def pairSegments_eq zip_chain)



text \<open>
  C3. For an outer join (the offset headings differ and the signed turn angle times the
  distance is not strictly positive) \<open>circularArc\<close> returns a chain of segments from the
  end point of \<open>s1\<close>'s offset segment to the start point of \<open>s2\<close>'s offset segment, for
  either sign of the distance. The points in between are the samples
  \<open>translatePoint(center, distance, startAngle + k\<pi>/8)\<close> for all \<open>k \<ge> 1\<close> with
  \<open>startAngle + k\<pi>/8 < endAngle\<close>, in increasing \<open>k\<close> for a non-positive distance and
  in decreasing \<open>k\<close> for a positive one; each lies at distance \<open>|distance|\<close> from
  \<open>center = s1.original[1]\<close>.
\<close>

theorem circularArc_outer:
  assumes "offsetAngle s1 \<noteq> offsetAngle s2"
    and "\<not> getSignedAngle (offset s1) (offset s2) * distance > 0"
  shows "\<exists>m mids.
     fst (circularArc s1 s2 distance n)
       = zip (snd (offset s1) # mids) (mids @ [fst (offset s2)]) \<and>
     length mids = m \<and>
     map pos (if distance > 0 then rev mids else mids)
       = map (\<lambda>i. translatePoint (snd (original s1)) distance
                     (arcStartAngle s1 s2 distance + real (i + 1) * (pi / 8)))
             [0..<m] \<and>
     (\<forall>i<m. arcStartAngle s1 s2 distance + real (i + 1) * (pi / 8) < arcEndAngle s1 s2 distance) \<and>
     arcEndAngle s1 s2 distance \<le> arcStartAngle s1 s2 distance + real (m + 1) * (pi / 8) \<and>
     (\<forall>q \<in> set mids. distanceTo (pos q) (snd (original s1)) = \<bar>distance\<bar>)"
proof -
  define center where "center = snd (original s1)"
  define start where "start = arcStartAngle s1 s2 distance"
  define samples where
    "samples = arcLoop center distance (start + pi / 8) (arcEndAngle s1 s2 distance) n"
  define mids where "mids = (if distance > 0 then rev samples else samples)"
  obtain m where list: "samples
          = map (\<lambda>i. \<lparr>oid = n + i,
                       pos = translatePoint center distance (start + pi / 8 + real i * (pi / 8))\<rparr>)
                [0..<m]"
      and below: "\<forall>i<m. start + pi / 8 + real i * (pi / 8) < arcEndAngle s1 s2 distance"
      and stop: "arcEndAngle s1 s2 distance \<le> start + pi / 8 + real m * (pi / 8)"
    unfolding samples_def
    using arcLoop_samples[of center distance "start + pi / 8" "arcEndAngle s1 s2 distance" n]
    by blast
  have shift: "\<And>i. start + pi / 8 + real i * (pi / 8) = start + real (i + 1) * (pi / 8)"
    by (simp add: algebra_simps)
  have segs: "fst (circularArc s1 s2 distance n)
       = zip (snd (offset s1) # mids) (mids @ [fst (offset s2)])"
    using circularArc_outer_eq[OF assms, of n]
    by (simp add: Let_def mids_def samples_def center_def start_def)
  have len: "length mids = m"
    by (simp add: mids_def list)
  have revrev: "(if distance > 0 then rev mids else mids) = samples"
    by (simp add: mids_def)
  have posl: "map pos (if distance > 0 then rev mids else mids)
       = map (\<lambda>i. translatePoint center distance (start + real (i + 1) * (pi / 8))) [0..<m]"
    unfolding revrev list shift by (simp add: comp_def)
  have below': "\<forall>i<m. start + real (i + 1) * (pi / 8) < arcEndAngle s1 s2 distance"
    using below unfolding shift .
  have stop': "arcEndAngle s1 s2 distance \<le> start + real (m + 1) * (pi / 8)"
    using stop unfolding shift .
  have "\<forall>q \<in> set samples. distanceTo (pos q) center = \<bar>distance\<bar>"
    unfolding list by (auto simp: translatePoint_distance)
  then have dist: "\<forall>q \<in> set mids. distanceTo (pos q) center = \<bar>distance\<bar>"
    by (simp add: mids_def)
  show ?thesis
    using segs len posl below' stop' dist unfolding center_def start_def
    by (intro exI[of _ m] exI[of _ mids] conjI)
qed

theorem circularArc_outer_witness:
  "offsetPointLine [mkPoint 0 0, mkPoint 10 0, mkPoint 10 10] (-5) 0 = ([cornerS1, cornerS2], 4) \<and>
   offsetAngle cornerS1 \<noteq> offsetAngle cornerS2 \<and>
   \<not> getSignedAngle (offset cornerS1) (offset cornerS2) * (-5) > 0 \<and>
   (\<exists>m mids.
     fst (circularArc cornerS1 cornerS2 (-5) 4)
       = zip (mkObj 1 10 (-5) # mids) (mids @ [mkObj 2 15 0]) \<and>
     length mids = m \<and>
     map pos mids
       = map (\<lambda>i. translatePoint (mkPoint 10 0) (-5) (pi / 2 + real (i + 1) * (pi / 8))) [0..<m] \<and>
     (\<forall>i<m. pi / 2 + real (i + 1) * (pi / 8) < pi) \<and>
     pi \<le> pi / 2 + real (m + 1) * (pi / 8) \<and>
     (\<forall>q \<in> set mids. distanceTo (pos q) (mkPoint 10 0) = 5))"
proof -
  have o: "offsetPointLine [mkPoint 0 0, mkPoint 10 0, mkPoint 10 10] (-5) 0
             = ([cornerS1, cornerS2], 4)"
    by (simp add: offsetPointLine_def atan2_def translatePoint_def Let_def)
  have h1: "offsetAngle cornerS1 \<noteq> offsetAngle cornerS2"
    using pi_gt_zero by simp
  have sa: "getSignedAngle (offset cornerS1) (offset cornerS2) = pi / 2"
    by (simp add: getSignedAngle_def segmentAsVector_def atan2_def)
  have h2: "\<not> getSignedAngle (offset cornerS1) (offset cornerS2) * (-5) > 0"
    unfolding sa using pi_gt_zero by simp
  have st: "arcStartAngle cornerS1 cornerS2 (-5) = pi / 2"
    by (simp add: arcStartAngle_def)
  have en: "arcEndAngle cornerS1 cornerS2 (-5) = pi"
    using pi_gt_zero by (simp add: arcEndAngle_def arcStartAngle_def)
  have "\<exists>m mids.
     fst (circularArc cornerS1 cornerS2 (-5) 4)
       = zip (mkObj 1 10 (-5) # mids) (mids @ [mkObj 2 15 0]) \<and>
     length mids = m \<and>
     map pos mids
       = map (\<lambda>i. translatePoint (mkPoint 10 0) (-5) (pi / 2 + real (i + 1) * (pi / 8))) [0..<m] \<and>
     (\<forall>i<m. pi / 2 + real (i + 1) * (pi / 8) < pi) \<and>
     pi \<le> pi / 2 + real (m + 1) * (pi / 8) \<and>
     (\<forall>q \<in> set mids. distanceTo (pos q) (mkPoint 10 0) = 5)"
    using circularArc_outer[OF h1 h2, of 4] unfolding st en by simp
  then show ?thesis
    using o h1 h2 by blast
qed

text \<open>The outer turn of the example has three samples, at \<open>5\<pi>/8\<close>, \<open>6\<pi>/8\<close>, \<open>7\<pi>/8\<close>.\<close>

lemma arcLoop_step:
  "alpha < endAngle \<Longrightarrow>
     arcLoop center distance alpha endAngle k
       = \<lparr>oid = k, pos = translatePoint center distance alpha\<rparr>
           # arcLoop center distance (alpha + pi / 8) endAngle (k + 1)"
  by (subst arcLoop.simps) simp

lemma arcLoop_stop:
  "\<not> alpha < endAngle \<Longrightarrow> arcLoop center distance alpha endAngle k = []"
  by (subst arcLoop.simps) simp

lemma corner_arc_example:
  "fst (circularArc cornerS1 cornerS2 (-5) 4)
     = [(mkObj 1 10 (-5), \<lparr>oid = 4, pos = translatePoint (mkPoint 10 0) (-5) (5 * pi / 8)\<rparr>),
        (\<lparr>oid = 4, pos = translatePoint (mkPoint 10 0) (-5) (5 * pi / 8)\<rparr>,
         \<lparr>oid = 5, pos = translatePoint (mkPoint 10 0) (-5) (6 * pi / 8)\<rparr>),
        (\<lparr>oid = 5, pos = translatePoint (mkPoint 10 0) (-5) (6 * pi / 8)\<rparr>,
         \<lparr>oid = 6, pos = translatePoint (mkPoint 10 0) (-5) (7 * pi / 8)\<rparr>),
        (\<lparr>oid = 6, pos = translatePoint (mkPoint 10 0) (-5) (7 * pi / 8)\<rparr>, mkObj 2 15 0)]"
proof -
  have sa: "getSignedAngle (offset cornerS1) (offset cornerS2) = pi / 2"
    by (simp add: getSignedAngle_def segmentAsVector_def atan2_def)
  have e1: "pi / 2 + pi / 8 = 5 * pi / 8" by simp
  have e2: "5 * pi / 8 + pi / 8 = 6 * pi / 8" by simp
  have e3: "6 * pi / 8 + pi / 8 = 7 * pi / 8" by simp
  have e4: "7 * pi / 8 + pi / 8 = pi" by simp
  have l1: "5 * pi / 8 < pi" and l2: "6 * pi / 8 < pi" and l3: "7 * pi / 8 < pi"
    using pi_gt_zero by simp_all
  have a4: "arcLoop (mkPoint 10 0) (-5) pi pi 7 = []"
    by (rule arcLoop_stop) simp
  have a3: "arcLoop (mkPoint 10 0) (-5) (7 * pi / 8) pi 6
              = [\<lparr>oid = 6, pos = translatePoint (mkPoint 10 0) (-5) (7 * pi / 8)\<rparr>]"
    using arcLoop_step[OF l3, of "mkPoint 10 0" "-5" 6] by (simp add: a4)
  have a2: "arcLoop (mkPoint 10 0) (-5) (6 * pi / 8) pi 5
              = [\<lparr>oid = 5, pos = translatePoint (mkPoint 10 0) (-5) (6 * pi / 8)\<rparr>,
                 \<lparr>oid = 6, pos = translatePoint (mkPoint 10 0) (-5) (7 * pi / 8)\<rparr>]"
    using arcLoop_step[OF l2, of "mkPoint 10 0" "-5" 5] a3 by simp
  have a1: "arcLoop (mkPoint 10 0) (-5) (5 * pi / 8) pi 4
              = [\<lparr>oid = 4, pos = translatePoint (mkPoint 10 0) (-5) (5 * pi / 8)\<rparr>,
                 \<lparr>oid = 5, pos = translatePoint (mkPoint 10 0) (-5) (6 * pi / 8)\<rparr>,
                 \<lparr>oid = 6, pos = translatePoint (mkPoint 10 0) (-5) (7 * pi / 8)\<rparr>]"
    using arcLoop_step[OF l1, of "mkPoint 10 0" "-5" 4] a2 by simp
  have arc: "circularArc cornerS1 cornerS2 (-5) 4 =
           (let samples = arcLoop (mkPoint 10 0) (-5) (5 * pi / 8) pi 4
            in (zip (mkObj 1 10 (-5) # samples) (samples @ [mkObj 2 15 0]), 4 + length samples))"
  proof -
    have h1: "offsetAngle cornerS1 \<noteq> offsetAngle cornerS2"
      using pi_gt_zero by simp
    have h2: "\<not> getSignedAngle (offset cornerS1) (offset cornerS2) * (-5) > 0"
      unfolding sa using pi_gt_zero by simp
    have st: "arcStartAngle cornerS1 cornerS2 (-5) = pi / 2"
      by (simp add: arcStartAngle_def)
    have en: "arcEndAngle cornerS1 cornerS2 (-5) = pi"
      using pi_gt_zero by (simp add: arcEndAngle_def arcStartAngle_def)
    show ?thesis
      using circularArc_outer_eq[OF h1 h2, of 4] unfolding st en e1 by simp
  qed
  show ?thesis
    unfolding arc a1 by (simp add: Let_def)
qed

subsection \<open>The pipeline\<close>

lemma distinctPairs_single:
  assumes "\<forall>q \<in> set points. q = p"
  shows "distinctPairs points = []"
proof -
  have sub: "set (tl points) \<subseteq> set points"
    by (cases points) auto
  have "\<forall>ab \<in> set (zip points (tl points)). fst ab = snd ab"
  proof
    fix ab assume m: "ab \<in> set (zip points (tl points))"
    obtain a b where ab: "ab = (a, b)" by (cases ab)
    have ain: "a \<in> set points"
      using m unfolding ab by (rule set_zip_leftD)
    have "b \<in> set (tl points)"
      using m unfolding ab by (rule set_zip_rightD)
    then have bin: "b \<in> set points"
      using sub by blast
    have "a = p" using assms ain by (rule bspec)
    moreover have "b = p" using assms bin by (rule bspec)
    ultimately show "fst ab = snd ab" by (simp add: ab)
  qed
  then show ?thesis
    unfolding distinctPairs_def by (auto simp: filter_empty_conv)
qed

lemma cutInnerAngles_empty: "cutInnerAngles [] n = Some (Inl TypeError)"
  by (simp add: cutInnerAngles_def cutLoop.simps collectPoints_def)

text \<open>
  C10. \<open>joinLineSegments\<close> of the empty OffsetSegment list returns the empty point
  sequence, without error; \<open>cutInnerAngles\<close> is not called, which on the empty list would
  throw. A path all of whose points are equal gives the empty OffsetSegment list and so
  the empty result.
\<close>

theorem joinLineSegments_empty:
  "joinLineSegments [] offs n = Some (Inr []) \<and>
   cutInnerAngles [] n = Some (Inl TypeError) \<and>
   (set points \<subseteq> {p} \<longrightarrow>
      offsetPointLine points offs n = ([], n) \<and>
      offsetPoints (\<lambda>pts tolerance. pts) points smoothFactor offs n = Some (Inr []))"
proof -
  have a: "joinLineSegments [] offs n = Some (Inr [])"
    by (simp add: joinLineSegments_def)
  have c: "set points \<subseteq> {p} \<longrightarrow>
      offsetPointLine points offs n = ([], n) \<and>
      offsetPoints (\<lambda>pts tolerance. pts) points smoothFactor offs n = Some (Inr [])"
  proof
    assume "set points \<subseteq> {p}"
    then have "\<forall>q \<in> set points. q = p" by blast
    then have "distinctPairs points = []" by (rule distinctPairs_single)
    then have "offsetPointLine points offs n = ([], n)"
      by (simp add: offsetPointLine_eq)
    then show "offsetPointLine points offs n = ([], n) \<and>
      offsetPoints (\<lambda>pts tolerance. pts) points smoothFactor offs n = Some (Inr [])"
      by (simp add: offsetPoints_def a)
  qed
  show ?thesis by (intro conjI) (rule a, rule cutInnerAngles_empty, rule c)
qed

theorem joinLineSegments_empty_witness:
  "set [mkPoint 3 4, mkPoint 3 4, mkPoint 3 4] \<subseteq> {mkPoint 3 4} \<and>
   offsetPointLine [mkPoint 3 4, mkPoint 3 4, mkPoint 3 4] 5 0 = ([], 0) \<and>
   offsetPoints (\<lambda>pts tolerance. pts) [mkPoint 3 4, mkPoint 3 4, mkPoint 3 4] 1 5 0 = Some (Inr []) \<and>
   joinLineSegments [] 5 0 = Some (Inr [])"
proof -
  have h: "set [mkPoint 3 4, mkPoint 3 4, mkPoint 3 4] \<subseteq> {mkPoint 3 4}"
    by simp
  note inst = joinLineSegments_empty
      [of 5 0 "[mkPoint 3 4, mkPoint 3 4, mkPoint 3 4]" "mkPoint 3 4" 1]
  note r = inst[THEN conjunct2, THEN conjunct2, THEN mp, OF h]
  show ?thesis
    by (intro conjI) (rule h, rule r[THEN conjunct1], rule r[THEN conjunct2], rule inst[THEN conjunct1])
qed

text \<open>
  C1 fails on the code. For the straight path \<open>(0,0), (5,0), (10,0)\<close> and distance 0 the
  two offset segments have the same heading, so \<open>circularArc\<close> adds no join; the end of
  the first and the start of the second are equal points but different objects, so
  \<open>cutInnerAngles\<close> does not find them joined, finds no intersection either and drops
  the second segment. The result is \<open>(0,0), (5,0)\<close>: the path is cut short at its middle
  point.
\<close>

theorem zero_offset_collinear_truncated:
  "offsetPointLine [mkPoint 0 0, mkPoint 5 0, mkPoint 10 0] 0 0
     = ([mkSeg (pi / 2) (mkPoint 0 0, mkPoint 5 0) (mkObj 0 0 0, mkObj 1 5 0),
         mkSeg (pi / 2) (mkPoint 5 0, mkPoint 10 0) (mkObj 2 5 0, mkObj 3 10 0)], 4) \<and>
   joinLineSegments
       [mkSeg (pi / 2) (mkPoint 0 0, mkPoint 5 0) (mkObj 0 0 0, mkObj 1 5 0),
        mkSeg (pi / 2) (mkPoint 5 0, mkPoint 10 0) (mkObj 2 5 0, mkObj 3 10 0)] 0 4
     = Some (Inr [mkObj 0 0 0, mkObj 1 5 0]) \<and>
   offsetPoints (\<lambda>pts tolerance. pts) [mkPoint 0 0, mkPoint 5 0, mkPoint 10 0] 0 0 0
     = Some (Inr [mkObj 0 0 0, mkObj 1 5 0])"
proof -
  have o: "offsetPointLine [mkPoint 0 0, mkPoint 5 0, mkPoint 10 0] 0 0
     = ([mkSeg (pi / 2) (mkPoint 0 0, mkPoint 5 0) (mkObj 0 0 0, mkObj 1 5 0),
         mkSeg (pi / 2) (mkPoint 5 0, mkPoint 10 0) (mkObj 2 5 0, mkObj 3 10 0)], 4)"
    by (simp add: offsetPointLine_def atan2_def translatePoint_def Let_def)
  have j: "joinLineSegments
       [mkSeg (pi / 2) (mkPoint 0 0, mkPoint 5 0) (mkObj 0 0 0, mkObj 1 5 0),
        mkSeg (pi / 2) (mkPoint 5 0, mkPoint 10 0) (mkObj 2 5 0, mkObj 3 10 0)] 0 4
     = Some (Inr [mkObj 0 0 0, mkObj 1 5 0])"
    by (simp add: joinLineSegments_def joinOuterAngles_def circularArc_def
          cutInnerAngles_def cutLoop.simps cutStep_def dropNext_def spliceOut_def
          collectPoints_def sameObj_def intersectsSeg_def intersects_def signedArea_def)
  have p: "offsetPoints (\<lambda>pts tolerance. pts) [mkPoint 0 0, mkPoint 5 0, mkPoint 10 0] 0 0 0
     = joinLineSegments
       [mkSeg (pi / 2) (mkPoint 0 0, mkPoint 5 0) (mkObj 0 0 0, mkObj 1 5 0),
        mkSeg (pi / 2) (mkPoint 5 0, mkPoint 10 0) (mkObj 2 5 0, mkObj 3 10 0)] 0 4"
    unfolding offsetPoints_def o by (simp only: Let_def split_conv)
  show ?thesis
    by (intro conjI) (rule o, rule j, simp only: p j)
qed

text \<open>
  Where the path turns, the join keeps the chain connected by shared objects, and the
  path comes back with its corner repeated: \<open>(0,0), (10,0), (10,0), (10,0), (10,0),
  (10,0), (10,10)\<close> for the path \<open>(0,0), (10,0), (10,10)\<close> at distance 0.
\<close>

lemma zero_offset_corner_example:
  "offsetPoints (\<lambda>pts tolerance. pts) [mkPoint 0 0, mkPoint 10 0, mkPoint 10 10] 0 0 0
     = Some (Inr [mkObj 0 0 0, mkObj 1 10 0, mkObj 4 10 0, mkObj 5 10 0, mkObj 6 10 0,
                  mkObj 2 10 0, mkObj 3 10 10])"
proof -
  have o: "offsetPointLine [mkPoint 0 0, mkPoint 10 0, mkPoint 10 10] 0 0
     = ([mkSeg (pi / 2) (mkPoint 0 0, mkPoint 10 0) (mkObj 0 0 0, mkObj 1 10 0),
         mkSeg (- pi) (mkPoint 10 0, mkPoint 10 10) (mkObj 2 10 0, mkObj 3 10 10)], 4)"
    by (simp add: offsetPointLine_def atan2_def translatePoint_def Let_def)
  have e1: "pi / 2 + pi / 8 = 5 * pi / 8" by simp
  have l1: "5 * pi / 8 < pi" and l2: "6 * pi / 8 < pi" and l3: "7 * pi / 8 < pi"
    using pi_gt_zero by simp_all
  have a4: "arcLoop (mkPoint 10 0) 0 pi pi 7 = []"
    by (rule arcLoop_stop) simp
  have a3: "arcLoop (mkPoint 10 0) 0 (7 * pi / 8) pi 6 = [mkObj 6 10 0]"
    using arcLoop_step[OF l3, of "mkPoint 10 0" 0 6] by (simp add: a4 translatePoint_def)
  have a2: "arcLoop (mkPoint 10 0) 0 (6 * pi / 8) pi 5 = [mkObj 5 10 0, mkObj 6 10 0]"
    using arcLoop_step[OF l2, of "mkPoint 10 0" 0 5] a3 by (simp add: translatePoint_def)
  have a1: "arcLoop (mkPoint 10 0) 0 (5 * pi / 8) pi 4
              = [mkObj 4 10 0, mkObj 5 10 0, mkObj 6 10 0]"
    using arcLoop_step[OF l1, of "mkPoint 10 0" 0 4] a2 by (simp add: translatePoint_def)
  have arc: "circularArc
               (mkSeg (pi / 2) (mkPoint 0 0, mkPoint 10 0) (mkObj 0 0 0, mkObj 1 10 0))
               (mkSeg (- pi) (mkPoint 10 0, mkPoint 10 10) (mkObj 2 10 0, mkObj 3 10 10)) 0 4
             = ([(mkObj 1 10 0, mkObj 4 10 0), (mkObj 4 10 0, mkObj 5 10 0),
                 (mkObj 5 10 0, mkObj 6 10 0), (mkObj 6 10 0, mkObj 2 10 0)], 7)"
    using pi_gt_zero by (simp add: circularArc_def Let_def e1 a1 pairSegments_def)
  have cut: "cutInnerAngles
               [(mkObj 0 0 0, mkObj 1 10 0),
                (mkObj 1 10 0, mkObj 4 10 0), (mkObj 4 10 0, mkObj 5 10 0),
                (mkObj 5 10 0, mkObj 6 10 0), (mkObj 6 10 0, mkObj 2 10 0),
                (mkObj 2 10 0, mkObj 3 10 10)] 7
             = Some (Inr [mkObj 0 0 0, mkObj 1 10 0, mkObj 4 10 0, mkObj 5 10 0, mkObj 6 10 0,
                          mkObj 2 10 0, mkObj 3 10 10])"
    by (subst cutInnerAngles_connected)
       (auto simp: sameObj_def collectPoints_def nth_Cons' less_Suc_eq)
  have j: "joinLineSegments
             [mkSeg (pi / 2) (mkPoint 0 0, mkPoint 10 0) (mkObj 0 0 0, mkObj 1 10 0),
              mkSeg (- pi) (mkPoint 10 0, mkPoint 10 10) (mkObj 2 10 0, mkObj 3 10 10)] 0 4
           = cutInnerAngles
               [(mkObj 0 0 0, mkObj 1 10 0),
                (mkObj 1 10 0, mkObj 4 10 0), (mkObj 4 10 0, mkObj 5 10 0),
                (mkObj 5 10 0, mkObj 6 10 0), (mkObj 6 10 0, mkObj 2 10 0),
                (mkObj 2 10 0, mkObj 3 10 10)] 7"
    by (simp only: joinLineSegments_def joinOuterAngles_def arc list.case forEachPair.simps
          Let_def split_conv filter.simps if_True append.simps offsetSegment.select_convs)
  show ?thesis
    unfolding offsetPoints_def o
    by (simp only: Let_def split_conv j cut)
qed

text \<open>The same happens at every distance, here at distance 5.\<close>

lemma offset_collinear_truncated:
  "offsetPoints (\<lambda>pts tolerance. pts) [mkPoint 0 0, mkPoint 5 0, mkPoint 10 0] 0 5 0
     = Some (Inr [mkObj 0 0 5, mkObj 1 5 5])"
  by (simp add: offsetPoints_def offsetPointLine_def atan2_def translatePoint_def Let_def
        joinLineSegments_def joinOuterAngles_def circularArc_def
        cutInnerAngles_def cutLoop.simps cutStep_def dropNext_def spliceOut_def
        collectPoints_def sameObj_def intersectsSeg_def intersects_def signedArea_def)


subsection \<open>The dropped segment and the pair behind it\<close>

lemma sqrt_25_9: "sqrt (1 + (4 / 3)\<^sup>2) = 5 / 3"
  by (rule real_sqrt_unique) (simp_all add: power2_eq_square)

lemma cos_sin_3pi2: "cos (3 * pi / 2) = 0" "sin (3 * pi / 2) = - 1"
  using cos_3over2_pi sin_3over2_pi by simp_all

lemma cos_bend: "cos (arctan (4 / 3) - 3 * pi / 2) = - (4 / 5)"
  by (simp only: cos_diff cos_sin_3pi2 sin_arctan sqrt_25_9) simp

lemma sin_bend: "sin (arctan (4 / 3) - 3 * pi / 2) = 3 / 5"
  by (simp only: sin_diff cos_sin_3pi2 cos_arctan sqrt_25_9) simp

lemma bend_offset:
  "offsetPointLine [mkPoint 0 0, mkPoint 20 0, mkPoint 23 4, mkPoint 23 44] 15 0
     = ([bendA, bendB, bendC], 6)"
proof -
  have a1: "atan2 0 (- 20) = pi"
    and a2: "atan2 (- 4) (- 3) - pi / 2 = arctan (4 / 3) - 3 * pi / 2"
    and a3: "atan2 (- 40) 0 - pi / 2 = - pi"
    by (simp_all add: atan2_def)
  have a1': "atan2 0 (- 20) - pi / 2 = pi / 2"
    by (simp add: a1)
  have ta1: "translatePoint (mkPoint 0 0) 15 (atan2 0 (- 20) - pi / 2) = mkPoint 0 15"
    and ta2: "translatePoint (mkPoint 20 0) 15 (atan2 0 (- 20) - pi / 2) = mkPoint 20 15"
    unfolding a1' by (simp_all add: translatePoint_def)
  have tb1: "translatePoint (mkPoint 20 0) 15 (atan2 (- 4) (- 3) - pi / 2) = mkPoint 8 9"
    and tb2: "translatePoint (mkPoint 23 4) 15 (atan2 (- 4) (- 3) - pi / 2) = mkPoint 11 13"
    unfolding a2 by (simp_all add: translatePoint_def cos_bend sin_bend)
  have tc1: "translatePoint (mkPoint 23 4) 15 (atan2 (- 40) 0 - pi / 2) = mkPoint 8 4"
    and tc2: "translatePoint (mkPoint 23 44) 15 (atan2 (- 40) 0 - pi / 2) = mkPoint 8 44"
    unfolding a3 by (simp_all add: translatePoint_def)
  show ?thesis
    unfolding offsetPointLine_def
    by (simp add: Let_def)
       (simp only: ta1 ta2 tb1 tb2 tc1 tc2 simp_thms, simp only: a1 a2 a3 simp_thms)
qed

lemma bend_inner:
  "getSignedAngle (offset bendA) (offset bendB) * 15 > 0"
  "getSignedAngle (offset bendB) (offset bendC) * 15 > 0"
  by (simp_all add: getSignedAngle_def segmentAsVector_def atan2_def zero_less_arctan_iff)

lemma bend_join:
  "joinLineSegments [bendA, bendB, bendC] 15 6
     = cutInnerAngles [(mkObj 0 0 15, mkObj 1 20 15), (mkObj 2 8 9, mkObj 3 11 13),
                       (mkObj 4 8 4, mkObj 5 8 44)] 6"
proof -
  have ab: "circularArc bendA bendB 15 6 = ([], 6)"
    by (rule circularArc_none) (simp only: bend_inner simp_thms)
  have bc: "circularArc bendB bendC 15 6 = ([], 6)"
    by (rule circularArc_none) (simp only: bend_inner simp_thms)
  show ?thesis
    by (simp only: joinLineSegments_def joinOuterAngles_def ab bc list.case forEachPair.simps
          Let_def split_conv filter.simps append.simps offsetSegment.select_convs)
qed

lemma bend_cut:
  "cutInnerAngles [(mkObj 0 0 15, mkObj 1 20 15), (mkObj 2 8 9, mkObj 3 11 13),
                   (mkObj 4 8 4, mkObj 5 8 44)] 6
     = Some (Inr [mkObj 0 0 15, mkObj 1 20 15, mkObj 5 8 44])"
  by (simp add: cutInnerAngles_def cutLoop.simps cutStep_def dropNext_def spliceOut_def
        collectPoints_def sameObj_def intersectsSeg_def intersects_def signedArea_def)

text \<open>
  After the drop, a scan of the remaining two segments from cursor 0 would clip them at
  their crossing \<open>(8,15)\<close>.
\<close>

lemma bend_scan_from_same_cursor:
  "cutLoop \<lparr>cur = 0, segs = [offset bendA, offset bendC], fresh = 6\<rparr>
     = Some (Inr \<lparr>cur = 1,
                    segs = [(mkObj 0 0 15, mkObj 6 8 15), (mkObj 6 8 15, mkObj 5 8 44)],
                    fresh = 7\<rparr>)"
  by (simp add: cutLoop.simps cutStep_def cutAt_def sameObj_def intersectsSeg_def intersects_def
        signedArea_def intersectionSeg_def intersection_def lineEquation_def Let_def)

text \<open>
  C2 fails on the code. The claim is that, when the backward search reaches index 0
  without an intersection, the segment at \<open>i+1\<close> is removed and the scan retries at the
  same cursor position \<open>i\<close>, without skipping the next pair. The source does
  \<open>segments.splice(i + 1, 1); ++i\<close>. For the path \<open>(0,0), (20,0), (23,4), (23,44)\<close> at
  distance 15 both joins are inner, so the segment list is the three offset segments. The
  first iteration drops the second segment and moves the cursor to 1, where the loop
  ends: the first and the third segment are never compared, although they are not joined
  and cross properly at \<open>(8,15)\<close>. The result is \<open>(0,15), (20,15), (8,44)\<close>.
\<close>

theorem cutInnerAngles_drop_skips_crossing:
  "offsetPointLine [mkPoint 0 0, mkPoint 20 0, mkPoint 23 4, mkPoint 23 44] 15 0
     = ([bendA, bendB, bendC], 6) \<and>
   joinLineSegments [bendA, bendB, bendC] 15 6
     = cutInnerAngles [offset bendA, offset bendB, offset bendC] 6 \<and>
   \<not> sameObj (snd (offset bendA)) (fst (offset bendB)) \<and>
   \<not> intersectsSeg (offset bendA) (offset bendB) \<and>
   cutStep \<lparr>cur = 0, segs = [offset bendA, offset bendB, offset bendC], fresh = 6\<rparr>
     = Inr \<lparr>cur = 1, segs = [offset bendA, offset bendC], fresh = 6\<rparr> \<and>
   \<not> sameObj (snd (offset bendA)) (fst (offset bendC)) \<and>
   intersectsSeg (offset bendA) (offset bendC) \<and>
   intersectionSeg (offset bendA) (offset bendC) = Some (mkPoint 8 15) \<and>
   cutInnerAngles [offset bendA, offset bendB, offset bendC] 6
     = Some (Inr [mkObj 0 0 15, mkObj 1 20 15, mkObj 5 8 44]) \<and>
   offsetPoints (\<lambda>pts tolerance. pts)
       [mkPoint 0 0, mkPoint 20 0, mkPoint 23 4, mkPoint 23 44] 0 15 0
     = Some (Inr [mkObj 0 0 15, mkObj 1 20 15, mkObj 5 8 44])"
proof -
  have j: "joinLineSegments [bendA, bendB, bendC] 15 6
     = cutInnerAngles [offset bendA, offset bendB, offset bendC] 6"
    using bend_join by simp
  have c: "cutInnerAngles [offset bendA, offset bendB, offset bendC] 6
     = Some (Inr [mkObj 0 0 15, mkObj 1 20 15, mkObj 5 8 44])"
    using bend_cut by simp
  have s1: "\<not> sameObj (snd (offset bendA)) (fst (offset bendB))"
    and s2: "\<not> sameObj (snd (offset bendA)) (fst (offset bendC))"
    by (simp_all add: sameObj_def)
  have i1: "\<not> intersectsSeg (offset bendA) (offset bendB)"
    and i2: "intersectsSeg (offset bendA) (offset bendC)"
    by (simp_all add: intersectsSeg_def intersects_def signedArea_def)
  have p: "intersectionSeg (offset bendA) (offset bendC) = Some (mkPoint 8 15)"
    by (simp add: intersectionSeg_def intersection_def lineEquation_def)
  have st: "cutStep \<lparr>cur = 0, segs = [offset bendA, offset bendB, offset bendC], fresh = 6\<rparr>
     = Inr \<lparr>cur = 1, segs = [offset bendA, offset bendC], fresh = 6\<rparr>"
    by (simp add: cutStep_def dropNext_def spliceOut_def sameObj_def intersectsSeg_def
          intersects_def signedArea_def)
  have o: "offsetPoints (\<lambda>pts tolerance. pts)
       [mkPoint 0 0, mkPoint 20 0, mkPoint 23 4, mkPoint 23 44] 0 15 0
     = Some (Inr [mkObj 0 0 15, mkObj 1 20 15, mkObj 5 8 44])"
    unfolding offsetPoints_def bend_offset
    by (simp only: Let_def split_conv j c)
  show ?thesis
    by (intro conjI) (rule bend_offset, rule j, rule s1, rule i1, rule st, rule s2, rule i2,
                      rule p, rule c, rule o)
qed

end
